theory Spec2Isabelle
  imports Main
begin

section \<open>Package-manager detection (src/unnamed/part_000)\<close>

text \<open>
  \<^verbatim>\<open>tryCreatePackageManager(dir)\<close> reads \<^verbatim>\<open>package.json\<close> in \<open>dir\<close> and
  looks at two lock files. What it reads from the directory is the input of the model:
  the two facets of the manifest the function looks at, and whether
  \<^verbatim>\<open>nodeFs.access\<close> resolves for each lock file. The three package-manager classes
  are constructed from \<^verbatim>\<open>{ rootDir: dir }\<close> only.
\<close>

datatype PackageManager = Npm string | Pnpm string | Yarn string

datatype pm_error =
    ReadFileError string
  | InvalidPackageManager string string
  | UnsupportedPackageManager string string
  | CouldNotDetermine string

record package_json =
  packageManagerField :: "string option"
  workspacesExists :: bool

record directory =
  packageJson :: "package_json option"
  yarnLockAccess :: bool
  pnpmLockAccess :: bool

text \<open>
  The values a JavaScript variable of the function can hold, as far as the loose
  comparison with \<^verbatim>\<open>null\<close> tells them apart. \<^verbatim>\<open>v != null\<close> is false for
  \<^verbatim>\<open>null\<close> and \<^verbatim>\<open>undefined\<close> only.
\<close>

datatype js_value = JSUndefined | JSNull | JSBoolean bool

definition looseNotEqualNull :: "js_value \<Rightarrow> bool" where
  "looseNotEqualNull v = (v \<noteq> JSNull \<and> v \<noteq> JSUndefined)"

text \<open>\<^verbatim>\<open>nodeFs.access(filename).then(() => true, () => false)\<close>\<close>

definition accessExists :: "bool \<Rightarrow> js_value" where
  "accessExists resolves = JSBoolean resolves"

text \<open>\<^verbatim>\<open>/^[^@]+/u.exec(packageManager)\<close>: the longest prefix without an \<^verbatim>\<open>@\<close>,
  no match when that prefix is empty.\<close>

definition matchName :: "string \<Rightarrow> string option" where
  "matchName packageManager =
     (let name = takeWhile (\<lambda>c. c \<noteq> CHR ''@'') packageManager
      in if name = [] then None else Some name)"

definition tryCreatePackageManager :: "string \<Rightarrow> directory \<Rightarrow> pm_error + PackageManager option" where
  "tryCreatePackageManager dir d =
     (case packageJson d of
        None \<Rightarrow> Inl (ReadFileError dir)
      | Some config \<Rightarrow>
          (case packageManagerField config of
             Some packageManager \<Rightarrow>
               (case matchName packageManager of
                  None \<Rightarrow> Inl (InvalidPackageManager packageManager dir)
                | Some name \<Rightarrow>
                    if name = ''npm'' then Inr (Some (Npm dir))
                    else if name = ''pnpm'' then Inr (Some (Pnpm dir))
                    else if name = ''yarn'' then Inr (Some (Yarn dir))
                    else Inl (UnsupportedPackageManager name dir))
           | None \<Rightarrow>
               if workspacesExists config then
                 (let yarnLockExists = accessExists (yarnLockAccess d)
                  in if looseNotEqualNull yarnLockExists then Inr (Some (Yarn dir))
                     else Inr (Some (Npm dir)))
               else
                 (let pnpmLockExists = pnpmLockAccess d
                  in if pnpmLockExists then Inr (Some (Pnpm dir)) else Inr None)))"

text \<open>
  \<^verbatim>\<open>createPackageManager\<close> walks from the working directory to the root of the file
  system. The chain of directories (\<^verbatim>\<open>dir\<close>, \<^verbatim>\<open>dirname(dir)\<close>, ... up to the
  directory that is its own parent) is the input list; the loop body runs at least once.
\<close>

fun createPackageManager :: "(string \<times> directory) list \<Rightarrow> pm_error + PackageManager" where
  "createPackageManager [] = Inl (CouldNotDetermine [])"
| "createPackageManager [(dir, d)] =
     (case tryCreatePackageManager dir d of
        Inl e \<Rightarrow> Inl e
      | Inr (Some pm) \<Rightarrow> Inr pm
      | Inr None \<Rightarrow> Inl (CouldNotDetermine dir))"
| "createPackageManager ((dir, d) # rest) =
     (case tryCreatePackageManager dir d of
        Inl e \<Rightarrow> Inl e
      | Inr (Some pm) \<Rightarrow> Inr pm
      | Inr None \<Rightarrow> createPackageManager rest)"

section \<open>The workspace collection\<close>

text \<open>
  The \<^verbatim>\<open>Workspace\<close> and \<^verbatim>\<open>WorkspaceCollection\<close> classes (package
  \<^verbatim>\<open>@wurk/workspace\<close>) are not among the source files; the commands under
  \<^verbatim>\<open>src/\<close> only call them. The record holds the fields the commands read and write.
\<close>

datatype status = pending | success | failure | skipped

record workspace =
  name :: string
  dir :: string
  isRoot :: bool
  isPrivate :: bool
  version :: "string option"
  isSelected :: bool
  status :: status
  detail :: "string option"
  isModified :: bool

datatype IterationMethod = forEachParallel | forEachSequential | forEachStream | forEachIndependent

record collection =
  workspaces :: "workspace list"
  includeRootWorkspace :: bool
  concurrency :: "nat option"
  defaultIterationMethod :: IterationMethod
  dependenciesIncluded :: bool
  dependentsIncluded :: bool
  links :: "(nat \<times> nat) list"

text \<open>
  Modelled from the spec: the constructor of \<^verbatim>\<open>WorkspaceCollection\<close>, which is missing
  from the sources. Spec 6: collection construction takes
  \<^verbatim>\<open>{ root descriptor, rootDir, workspace descriptors[], includeRootWorkspace, concurrency,
  defaultIterationMethod }\<close>. The Workspace records the Registry creates from the descriptors
  (the root first, marked \<open>isRoot\<close>) and the edges the Graph Builder computes from them are
  taken as given: \<open>registry\<close> and \<open>graph\<close>, an edge being a pair (dependent, dependency)
  of indices into the registry. Both closures start disabled.
\<close>

definition newWorkspaceCollection ::
  "workspace list \<Rightarrow> (nat \<times> nat) list \<Rightarrow> bool \<Rightarrow> nat option \<Rightarrow> IterationMethod \<Rightarrow> collection" where
  "newWorkspaceCollection registry graph includeRoot conc method =
     \<lparr>workspaces = registry, includeRootWorkspace = includeRoot, concurrency = conc,
      defaultIterationMethod = method, dependenciesIncluded = False, dependentsIncluded = False,
      links = graph\<rparr>"

text \<open>
  Modelled from the spec: \<^verbatim>\<open>select(expressions)\<close>, missing from the sources. Spec 4.2:
  select replaces the selected set with the union of the workspaces matching any of the
  expressions; the wildcard expression \<^verbatim>\<open>**\<close> matches every non-root workspace; the root
  workspace is a match target only when \<open>includeRootWorkspace\<close> was enabled at construction.
  The other matching rules (name, keyword, directory glob, private token), whose syntax the
  spec leaves open, are the parameter \<open>rule\<close>.
\<close>

definition isMatchTarget :: "collection \<Rightarrow> workspace \<Rightarrow> bool" where
  "isMatchTarget c w = (\<not> isRoot w \<or> includeRootWorkspace c)"

definition matchesExpression :: "(string \<Rightarrow> workspace \<Rightarrow> bool) \<Rightarrow> string \<Rightarrow> workspace \<Rightarrow> bool" where
  "matchesExpression rule e w = ((e = ''**'' \<and> \<not> isRoot w) \<or> rule e w)"

definition select :: "(string \<Rightarrow> workspace \<Rightarrow> bool) \<Rightarrow> string list \<Rightarrow> collection \<Rightarrow> collection" where
  "select rule expressions c =
     c\<lparr>workspaces :=
         map (\<lambda>w. w\<lparr>isSelected := isMatchTarget c w \<and> list_ex (\<lambda>e. matchesExpression rule e w) expressions\<rparr>)
           (workspaces c)\<rparr>"



text \<open>The workspaces reached from \<open>S\<close> along the edges in at most \<open>n\<close> rounds. With as
  many rounds as there are workspaces this is the reflexive and transitive closure (lemma
  \<open>reachable_closure\<close>).\<close>

fun reachable :: "nat \<Rightarrow> (nat \<times> nat) list \<Rightarrow> nat set \<Rightarrow> nat set" where
  "reachable 0 edges S = S"
| "reachable (Suc n) edges S = reachable n edges (S \<union> set (map snd (filter (\<lambda>e. fst e \<in> S) edges)))"

definition anchors :: "collection \<Rightarrow> nat set" where
  "anchors c = set (filter (\<lambda>i. isSelected (workspaces c ! i)) [0..<length (workspaces c)])"

text \<open>Whether the workspace at an index belongs to the selected subset: an anchor, or in an
  enabled closure of the anchors.\<close>

definition isIterated :: "collection \<Rightarrow> nat \<Rightarrow> bool" where
  "isIterated c i =
     (i \<in> anchors c
      \<or> (dependenciesIncluded c \<and> i \<in> reachable (length (workspaces c)) (links c) (anchors c))
      \<or> (dependentsIncluded c
          \<and> i \<in> reachable (length (workspaces c)) (map (\<lambda>e. (snd e, fst e)) (links c)) (anchors c)))"

definition selectedIndices :: "collection \<Rightarrow> nat list" where
  "selectedIndices c = filter (isIterated c) [0..<length (workspaces c)]"

text \<open>
  Modelled from the spec: \<^verbatim>\<open>status.set(status, detail)\<close>; the class of
  \<^verbatim>\<open>workspace.status\<close> is missing from the sources. Spec 3: \<open>pending\<close> is the only
  non-terminal state, and a status that has been set to a terminal state is not overwritten,
  so the call is then without effect. The detail is replaced when one is given.
\<close>

definition statusSet :: "status \<Rightarrow> string option \<Rightarrow> workspace \<Rightarrow> workspace" where
  "statusSet st given w =
     (if status w = pending then
        w\<lparr>status := st, detail := (case given of None \<Rightarrow> detail w | Some d \<Rightarrow> Some d)\<rparr>
      else w)"

text \<open>
  Modelled from the spec: \<^verbatim>\<open>forEach\<close>, missing from the sources. Spec 4.4: the action is
  invoked exactly once per selected workspace, the set being the one selected when the call
  starts; an action's failure is recorded on that workspace's status as \<open>failure\<close> with the
  message as detail (spec 7) and does not stop the others. An action here returns the
  workspace as it leaves it, and may read the others. The order of the calls follows the
  registration; the disciplines differ in it, and the callbacks below change their own
  workspace only.
\<close>

definition settle :: "(workspace list \<Rightarrow> workspace \<Rightarrow> string + workspace) \<Rightarrow> nat \<Rightarrow> workspace list \<Rightarrow> workspace list" where
  "settle f i wss =
     (case f wss (wss ! i) of
        Inr w \<Rightarrow> wss[i := w]
      | Inl message \<Rightarrow> wss[i := statusSet failure (Some message) (wss ! i)])"

definition forEach :: "(workspace list \<Rightarrow> workspace \<Rightarrow> string + workspace) \<Rightarrow> collection \<Rightarrow> collection" where
  "forEach f c = c\<lparr>workspaces := fold (settle f) (selectedIndices c) (workspaces c)\<rparr>"

section \<open>The command-line action (src/core/cli/src/run.ts, mainAsync)\<close>

text \<open>
  Strings are lists of 8-bit characters, so the model covers JavaScript strings whose code
  units are below 256. In that range \<^verbatim>\<open>\s\<close> matches tab, line feed, vertical tab, form
  feed, carriage return, space and the no-break space.
\<close>

definition isSpace :: "char \<Rightarrow> bool" where
  "isSpace c = (c \<in> {CHR 0x09, CHR 0x0A, CHR 0x0B, CHR 0x0C, CHR 0x0D, CHR 0x20, CHR 0xA0})"

text \<open>
  \<^verbatim>\<open>/\s*,\s*/u\<close> tried at the start of \<open>s\<close>: the greedy run of white space must be
  followed by a comma (giving white space back cannot help: the character after a shorter run
  is white space, not a comma). The result is what follows the match.
\<close>

definition matchSeparator :: "string \<Rightarrow> string option" where
  "matchSeparator s =
     (case dropWhile isSpace s of
        [] \<Rightarrow> None
      | c # r \<Rightarrow> if c = CHR '','' then Some (dropWhile isSpace r) else None)"

lemma matchSeparator_shorter: "matchSeparator s = Some r \<Longrightarrow> length r < length s"
proof -
  assume a: "matchSeparator s = Some r"
  then obtain c t where d: "dropWhile isSpace s = c # t" and r: "r = dropWhile isSpace t"
    by (auto simp: matchSeparator_def split: list.splits if_splits)
  have "length r \<le> length t" using r by (simp add: length_dropWhile_le)
  moreover have "length (c # t) \<le> length s" using d length_dropWhile_le[of isSpace s] by simp
  ultimately show ?thesis by simp
qed

text \<open>
  \<^verbatim>\<open>String.prototype.split\<close> with that separator: the pattern is tried at each position
  from left to right; \<open>piece\<close> is the text since the last match, reversed. The pattern never
  matches the empty string, so the empty input gives one empty piece.
\<close>

function splitFrom :: "string \<Rightarrow> string \<Rightarrow> string list" where
  "splitFrom piece [] = [rev piece]"
| "splitFrom piece (c # s) =
     (case matchSeparator (c # s) of
        Some r \<Rightarrow> rev piece # splitFrom [] r
      | None \<Rightarrow> splitFrom (c # piece) s)"
  by pat_completeness auto
termination
  by (relation "measure (\<lambda>(piece, s). length s)") (auto dest: matchSeparator_shorter)

definition split :: "string \<Rightarrow> string list" where
  "split s = splitFrom [] s"

text \<open>\<^verbatim>\<open>Array.prototype.join(',')\<close> on an array of strings.\<close>

fun join :: "string list \<Rightarrow> string" where
  "join [] = []"
| "join [x] = x"
| "join (x # y # ys) = x @ '','' @ join (y # ys)"

text \<open>
  The parsed options of the root command. A field is \<open>None\<close> when the option was not given
  (\<^verbatim>\<open>undefined\<close>), which is when the destructuring default applies.
\<close>

record options =
  optExpressions :: "string list option"
  optIncludeRootWorkspace :: "bool option"
  optParallel :: "bool option"
  optStream :: "bool option"
  optConcurrency :: "nat option"
  optScript :: "string option"
  optScriptArgs :: "string list"

text \<open>\<^verbatim>\<open>.optionAction('concurrency', ({ result }) => { result.options.stream = true; })\<close>:
  run by the parser when \<^verbatim>\<open>--concurrency\<close> is given, before the action.\<close>

definition optionActionConcurrency :: "options \<Rightarrow> options" where
  "optionActionConcurrency opts =
     (if optConcurrency opts \<noteq> None then opts\<lparr>optStream := Some True\<rparr> else opts)"

text \<open>
  The environment. \<^verbatim>\<open>WURK_RUNNING_COMMANDS\<close> is read as text. The other variables are
  read through \<^verbatim>\<open>JsonAccessor.parse(...).as(...)\<close> and written through
  \<^verbatim>\<open>JSON.stringify\<close>; \<^verbatim>\<open>JsonAccessor\<close> (package \<^verbatim>\<open>@wurk/json\<close>) is not among
  the sources, so each field holds the value the accessor yields for the variable: the
  strings of the array (empty when it is no array), the boolean (false when it is none), the
  number when it is one.
\<close>

record env =
  WURK_WORKSPACE_EXPRESSIONS :: "string list"
  WURK_INCLUDE_ROOT_WORKSPACE :: bool
  WURK_PARALLEL :: bool
  WURK_STREAM :: bool
  WURK_CONCURRENCY :: "nat option"
  WURK_RUNNING_COMMANDS :: "string option"

text \<open>
  What the action reads from outside: the workspace directories of the package manager, each
  with the truth value of \<^verbatim>\<open>workspaceConfig.at('name')\<close>; the Workspace records and
  edges the collection builds from the entries; the scripts of the root manifest; the result
  of spawning a package script.
\<close>

record world =
  workspaceEntries :: "(string \<times> bool) list"
  registry :: "workspace list"
  graph :: "(nat \<times> nat) list"
  rootScripts :: "string list"
  spawnPackageScriptFails :: bool

datatype cli_error =
    WorkspaceHasNoName string
  | NotACommandOrScript string
  | SpawnFailed string

datatype cli_event =
    GetWorkspaces
  | NewWorkspaceCollection bool "nat option" IterationMethod
  | Select "string list"
  | PluginsInit
  | SpawnPackageScript string "string list"

datatype outcome = ProcessExit nat | Threw cli_error | Returned

record action_result =
  events :: "cli_event list"
  envAfter :: env
  selection :: "collection option"
  outcome :: outcome

text \<open>\<^verbatim>\<open>running.includes(commandName)\<close>; \<open>commandName\<close> is \<^verbatim>\<open>undefined\<close> (\<open>None\<close>)
  when no command was given, and no string equals it.\<close>

definition arrayIncludes :: "string list \<Rightarrow> string option \<Rightarrow> bool" where
  "arrayIncludes running commandName = (case commandName of None \<Rightarrow> False | Some n \<Rightarrow> n \<in> set running)"

text \<open>\<^verbatim>\<open>[...running, commandName].join(',')\<close>: join writes \<^verbatim>\<open>undefined\<close> as the empty
  string.\<close>

definition appendRunning :: "string list \<Rightarrow> string option \<Rightarrow> string" where
  "appendRunning running commandName =
     join (running @ [case commandName of None \<Rightarrow> [] | Some n \<Rightarrow> n])"

definition iterationMethodOf :: "bool \<Rightarrow> bool \<Rightarrow> IterationMethod" where
  "iterationMethodOf parallel stream =
     (if parallel then forEachParallel
      else if stream then forEachStream
      else forEachSequential)"

text \<open>
  The destructuring of \<^verbatim>\<open>options\<close> with its defaults, lines 133 to 147: an option
  that was not given takes the value read from the environment.
\<close>

record resolved =
  expressions :: "string list"
  includeRoot :: bool
  parallel :: bool
  stream :: bool
  concurrencyCount :: "nat option"

definition destructure :: "env \<Rightarrow> options \<Rightarrow> resolved" where
  "destructure e opts =
     \<lparr>expressions = (case optExpressions opts of Some v \<Rightarrow> v | None \<Rightarrow> WURK_WORKSPACE_EXPRESSIONS e),
      includeRoot = (case optIncludeRootWorkspace opts of Some v \<Rightarrow> v | None \<Rightarrow> WURK_INCLUDE_ROOT_WORKSPACE e),
      parallel = (case optParallel opts of Some v \<Rightarrow> v | None \<Rightarrow> WURK_PARALLEL e),
      stream = (case optStream opts of Some v \<Rightarrow> v | None \<Rightarrow> WURK_STREAM e),
      concurrencyCount = (case optConcurrency opts of Some v \<Rightarrow> Some v | None \<Rightarrow> WURK_CONCURRENCY e)\<rparr>"

text \<open>\<^verbatim>\<open>env.WURK_RUNNING_COMMANDS?.split(/\s*,\s*/u) ?? []\<close>\<close>

definition runningCommands :: "env \<Rightarrow> string list" where
  "runningCommands e = (case WURK_RUNNING_COMMANDS e of Some v \<Rightarrow> split v | None \<Rightarrow> [])"

text \<open>
  Lines 173 to 217: the collection is constructed, the selection made, the plugins
  initialised, the environment written for nested invocations, and the root script (if one
  was named; the empty string is falsy) spawned. The log prefixes of lines 185 to 194 are
  left out. \<open>rule\<close> is the matching of selection expressions other than the wildcard (see
  \<open>select\<close>).
\<close>

definition construct ::
  "(string \<Rightarrow> workspace \<Rightarrow> bool) \<Rightarrow> world \<Rightarrow> env \<Rightarrow> resolved \<Rightarrow> options \<Rightarrow> action_result" where
  "construct rule w e1 res opts =
     (let method = iterationMethodOf (parallel res) (stream res);
          c0 = newWorkspaceCollection (registry w) (graph w) (includeRoot res) (concurrencyCount res) method;
          selected = (if expressions res \<noteq> [] then expressions res else [''**'']);
          c1 = select rule selected c0;
          e2 = e1\<lparr>WURK_WORKSPACE_EXPRESSIONS := expressions res,
                  WURK_INCLUDE_ROOT_WORKSPACE := includeRoot res,
                  WURK_PARALLEL := parallel res,
                  WURK_STREAM := stream res,
                  WURK_CONCURRENCY := concurrencyCount res\<rparr>;
          evs = [GetWorkspaces, NewWorkspaceCollection (includeRoot res) (concurrencyCount res) method,
                 Select selected, PluginsInit]
      in case optScript opts of
           None \<Rightarrow> \<lparr>events = evs, envAfter = e2, selection = Some c1, outcome = Returned\<rparr>
         | Some script \<Rightarrow>
             if script = [] then
               \<lparr>events = evs, envAfter = e2, selection = Some c1, outcome = Returned\<rparr>
             else if script \<notin> set (rootScripts w) then
               \<lparr>events = evs, envAfter = e2, selection = Some c1,
                outcome = Threw (NotACommandOrScript script)\<rparr>
             else
               \<lparr>events = evs @ [SpawnPackageScript script (optScriptArgs opts)],
                envAfter = e2, selection = Some c1,
                outcome = (if spawnPackageScriptFails w then Threw (SpawnFailed script)
                           else Returned)\<rparr>)"

text \<open>The action of the root command, lines 132 to 217.\<close>

definition action ::
  "(string \<Rightarrow> workspace \<Rightarrow> bool) \<Rightarrow> world \<Rightarrow> env \<Rightarrow> options \<Rightarrow> string option \<Rightarrow> action_result" where
  "action rule w e opts commandName =
     (let res = destructure e opts;
          running = runningCommands e
      in if arrayIncludes running commandName then
           \<lparr>events = [], envAfter = e, selection = None, outcome = ProcessExit 0\<rparr>
         else
           (let e1 = e\<lparr>WURK_RUNNING_COMMANDS := Some (appendRunning running commandName)\<rparr>
            in case filter (\<lambda>entry. \<not> snd entry) (workspaceEntries w) of
                 entry # _ \<Rightarrow>
                   \<lparr>events = [GetWorkspaces], envAfter = e1, selection = None,
                    outcome = Threw (WorkspaceHasNoName (fst entry))\<rparr>
               | [] \<Rightarrow> construct rule w e1 res opts))"

text \<open>One invocation of the command line: the parser runs the option actions, then the
  action.\<close>

definition mainAsync ::
  "(string \<Rightarrow> workspace \<Rightarrow> bool) \<Rightarrow> world \<Rightarrow> env \<Rightarrow> options \<Rightarrow> string option \<Rightarrow> action_result" where
  "mainAsync rule w e opts commandName = action rule w e (optionActionConcurrency opts) commandName"

text \<open>
  Nested invocations: a command that spawns \<^verbatim>\<open>wurk\<close> again hands its environment,
  as its own action left it, to the child process. \<open>nested\<close> is the environment at the end
  of a chain of such invocations, each started from inside the one before.
\<close>

record invocation =
  invWorld :: world
  invOptions :: options
  invCommand :: "string option"

fun nested :: "(string \<Rightarrow> workspace \<Rightarrow> bool) \<Rightarrow> invocation list \<Rightarrow> env \<Rightarrow> env" where
  "nested rule [] e = e"
| "nested rule (i # rest) e =
     nested rule rest (envAfter (mainAsync rule (invWorld i) e (invOptions i) (invCommand i)))"

text \<open>A command name without a comma and without white space at either end.\<close>

definition plainName :: "string \<Rightarrow> bool" where
  "plainName n = (CHR '','' \<notin> set n \<and> (n = [] \<or> (\<not> isSpace (hd n) \<and> \<not> isSpace (last n))))"

definition trimEnd :: "string \<Rightarrow> string" where
  "trimEnd p = rev (dropWhile isSpace (rev p))"

section \<open>Publishing from the file system (src/commands/publish/src/publishers/filesystem.ts)\<close>

text \<open>
  A \<^verbatim>\<open>WorkspaceLink\<close>: the manifest section it comes from, the key of the entry, the
  parsed specifier and the workspace it names. Of a specifier the code reads \<^verbatim>\<open>type\<close>,
  \<^verbatim>\<open>name\<close>, \<^verbatim>\<open>range\<close> (npm) and \<^verbatim>\<open>protocol\<close> (url).
\<close>

datatype link_type = dependencies | devDependencies | peerDependencies | optionalDependencies

datatype spec = NpmSpec string string | TagSpec string | UrlSpec string

record link =
  linkType :: link_type
  linkId :: string
  linkSpec :: spec
  dependency :: workspace

record metadata =
  gitHead :: "string option"

text \<open>
  The collaborators, none of them among the sources: the \<^verbatim>\<open>semver\<close> library, the
  package manager's registry query, Git (\<open>None\<close> stands for the call without a directory),
  the JSON accessor of the manifest (a type parameter with the three kinds of edit the
  function makes and the text \<^verbatim>\<open>writeJson\<close> writes for it), the workspace's files,
  entry points and links, \<^verbatim>\<open>nodePath.relative(...).startsWith('..')\<close>, and the two
  \<^verbatim>\<open>npm\<close> processes: the list of packed files (\<open>None\<close> when the dry run fails or
  prints something else), and whether the pack or publish run fails and what it leaves in
  \<^verbatim>\<open>package.json\<close>.
\<close>

record git =
  getIsDirty :: "string option \<Rightarrow> bool"
  getHead :: "string option \<Rightarrow> string option"

record 'cfg collaborators =
  satisfies :: "string \<Rightarrow> string \<Rightarrow> bool"
  minVersion :: "string \<Rightarrow> string option"
  getMetadata :: "string \<Rightarrow> string \<Rightarrow> metadata option"
  configSetSpec :: "link_type \<Rightarrow> string \<Rightarrow> string \<Rightarrow> 'cfg \<Rightarrow> 'cfg"
  configUnset :: "string list \<Rightarrow> 'cfg \<Rightarrow> 'cfg"
  configSetGitHead :: "string \<Rightarrow> 'cfg \<Rightarrow> 'cfg"
  stringify :: "'cfg \<Rightarrow> string"
  changelog :: "string option"
  packedFiles :: "string list option"
  entrypoints :: "(string \<times> string) list"
  relativeStartsWithDotDot :: "string \<Rightarrow> string \<Rightarrow> bool"
  dependencyLinks :: "link list"
  npmFails :: bool
  npmLeaves :: "string \<Rightarrow> string"

datatype pub_error =
    UncommittedChanges
  | PackOutputUnexpected
  | MissingPackedEntryPoints
  | DependencyIsLocalPath string
  | DependencyUnversioned string
  | DependencyPrivate string
  | MinVersionMismatch string
  | DependencyNotPublished string
  | DependencyUncommitted string
  | DependencyHeadMismatch string
  | AssertionFailed
  | NpmFailed

datatype pub_event =
    StatusSet status "string option"
  | LogInfo string
  | LogWarn string
  | LogError string
  | SpawnNpm "string list"
  | WriteJson string
  | WriteText string
  | QueryRegistry string string
  | QueryGitIsDirty string
  | QueryGitHead string

text \<open>A string or \<^verbatim>\<open>undefined\<close> in a condition: the empty string is falsy too.\<close>

definition truthy :: "string option \<Rightarrow> bool" where
  "truthy v = (case v of None \<Rightarrow> False | Some t \<Rightarrow> t \<noteq> [])"

text \<open>A name between double quotes, as the messages write it.\<close>

definition quoted :: "string \<Rightarrow> string" where
  "quoted n = CHR 0x22 # n @ [CHR 0x22]"

text \<open>\<^verbatim>\<open>String.prototype.includes\<close>\<close>

fun stringIncludes :: "string \<Rightarrow> string \<Rightarrow> bool" where
  "stringIncludes [] sub = (sub = [])"
| "stringIncludes (c # s) sub = (take (length sub) (c # s) = sub \<or> stringIncludes s sub)"

text \<open>\<^verbatim>\<open>field.split('.')\<close>: the pieces between the dots.\<close>

fun splitDots :: "string \<Rightarrow> string \<Rightarrow> string list" where
  "splitDots piece [] = [rev piece]"
| "splitDots piece (c # s) =
     (if c = CHR ''.'' then rev piece # splitDots [] s else splitDots (c # piece) s)"

text \<open>
  Lines 244 to 272 of \<^verbatim>\<open>validateDependency\<close>, the validation of a local dependency: it
  must have been published in this run, or be in the registry with a clean working tree and
  the published Git head. The result is the events (the queries made of the registry and of
  Git for the dependency, and the warnings logged) and either the error thrown or a normal
  return.
\<close>

definition validatePublished ::
  "'cfg collaborators \<Rightarrow> git option \<Rightarrow> workspace \<Rightarrow> string set \<Rightarrow> pub_event list \<times> (pub_error + unit)" where
  "validatePublished k g dep published =
     (if name dep \<in> published then ([], Inr ())
      else
        (let asked = [QueryRegistry (name dep) (the (version dep))]
         in case getMetadata k (name dep) (the (version dep)) of
              None \<Rightarrow> (asked, Inl (DependencyNotPublished (name dep)))
            | Some meta \<Rightarrow>
                (case g of
                   None \<Rightarrow> (asked, Inr ())
                 | Some git \<Rightarrow>
                     if getIsDirty git (Some (dir dep)) then
                       (asked @ [QueryGitIsDirty (dir dep)], Inl (DependencyUncommitted (name dep)))
                     else if truthy (gitHead meta) then
                       (let head = getHead git (Some (dir dep));
                            looked = asked @ [QueryGitIsDirty (dir dep), QueryGitHead (dir dep)]
                        in if truthy head then
                             (if head \<noteq> gitHead meta then (looked, Inl (DependencyHeadMismatch (name dep)))
                              else (looked, Inr ()))
                           else (looked @ [LogWarn (''dependency '' @ quoted (name dep) @ '' has no Git head'')],
                                 Inr ()))
                     else (asked @ [QueryGitIsDirty (dir dep),
                                    LogWarn (''dependency '' @ quoted (name dep) @ '' has no published Git head'')],
                           Inr ()))))"

text \<open>
  \<^verbatim>\<open>validateDependency\<close>, lines 189 to 273: the events and either the error thrown or a
  normal return. An entry that is not a local dependency returns before anything is asked
  or logged.
\<close>

definition validateDependency ::
  "'cfg collaborators \<Rightarrow> git option \<Rightarrow> link \<Rightarrow> string set \<Rightarrow> pub_event list \<times> (pub_error + unit)" where
  "validateDependency k g l published =
     (let dep = dependency l in
      if linkType l = devDependencies then ([], Inr ())
      else case linkSpec l of
        TagSpec _ \<Rightarrow> ([], Inr ())
      | UrlSpec protocol \<Rightarrow>
          if protocol \<noteq> ''file'' then ([], Inr ())
          else ([], Inl (DependencyIsLocalPath (name dep)))
      | NpmSpec _ rng \<Rightarrow>
          if \<not> truthy (version dep) then ([], Inl (DependencyUnversioned (name dep)))
          else if isPrivate dep then ([], Inl (DependencyPrivate (name dep)))
          else if \<not> satisfies k (the (version dep)) rng then ([], Inr ())
          else if rng \<noteq> ''*'' \<and> rng \<noteq> ''x'' \<and> minVersion k rng \<noteq> version dep
            then ([], Inl (MinVersionMismatch (name dep)))
          else validatePublished k g dep published)"

text \<open>The loop of lines 182 to 184: the first error ends it.\<close>

fun validateDependencies ::
  "'cfg collaborators \<Rightarrow> git option \<Rightarrow> link list \<Rightarrow> string set \<Rightarrow> pub_event list \<times> (pub_error + unit)" where
  "validateDependencies k g [] published = ([], Inr ())"
| "validateDependencies k g (l # ls) published =
     (case validateDependency k g l published of
        (evs, Inl e) \<Rightarrow> (evs, Inl e)
      | (evs, Inr _) \<Rightarrow>
          (case validateDependencies k g ls published of (evs', r) \<Rightarrow> (evs @ evs', r)))"

text \<open>
  \<^verbatim>\<open>validate\<close>, lines 101 to 187: the events, and the boolean returned or the error
  thrown. The registry and Git queries for the workspace itself decide the guards and are
  not listed among the events; those for its dependencies are.
\<close>

definition validate ::
  "'cfg collaborators \<Rightarrow> git option \<Rightarrow> workspace \<Rightarrow> string set \<Rightarrow> pub_event list \<times> (pub_error + bool)" where
  "validate k g ws published =
     (if isPrivate ws then
        ([LogInfo ''workspace is private'', StatusSet skipped (Some ''private'')], Inr False)
      else if \<not> truthy (version ws) then
        ([LogInfo ''workspace is unversioned'', StatusSet skipped (Some ''unversioned'')], Inr False)
      else if getMetadata k (name ws) (the (version ws)) \<noteq> None then
        ([LogInfo ''workspace is already published'', StatusSet skipped (Some ''already published'')],
         Inr False)
      else if (case g of None \<Rightarrow> False | Some git \<Rightarrow> getIsDirty git None) then
        ([], Inl UncommittedChanges)
      else
        (let v = the (version ws);
             warned =
               (if truthy (changelog k)
                   \<and> \<not> stringIncludes (the (changelog k)) (''# '' @ v @ '' '')
                   \<and> \<not> stringIncludes (the (changelog k)) (''# '' @ v @ [CHR 0x0A])
                then [LogWarn ''changelog may be outdated''] else []);
             spawned = warned @ [SpawnNpm [''pack'', ''--dry-run'', ''--json'']]
         in case packedFiles k of
              None \<Rightarrow> (spawned, Inl PackOutputUnexpected)
            | Some files \<Rightarrow>
                (let missingPackEntrypoints =
                       filter (\<lambda>entry. list_all (\<lambda>packEntry. relativeStartsWithDotDot k (snd entry) packEntry) files)
                         (entrypoints k)
                 in if missingPackEntrypoints \<noteq> [] then
                      (spawned @ map (\<lambda>entry. LogError (''missing '' @ fst entry @ '' '' @ quoted (snd entry)))
                                   missingPackEntrypoints,
                       Inl MissingPackedEntryPoints)
                    else
                      (case validateDependencies k g (dependencyLinks k) published of
                         (evs, Inl e) \<Rightarrow> (spawned @ evs, Inl e)
                       | (evs, Inr _) \<Rightarrow> (spawned @ evs, Inr True)))))"

text \<open>Lines 38 to 52: the wildcard ranges of the links are replaced in the manifest.\<close>

definition updateRange :: "'cfg collaborators \<Rightarrow> link \<Rightarrow> 'cfg \<Rightarrow> 'cfg" where
  "updateRange k l config =
     (if linkType l = devDependencies then config
      else if \<not> truthy (version (dependency l)) then config
      else case linkSpec l of
        NpmSpec specName rng \<Rightarrow>
          if rng \<noteq> ''*'' \<and> rng \<noteq> ''x'' then config
          else
            (let newRange = ''^'' @ the (version (dependency l));
                 newSpec = (if specName = linkId l then newRange else ''npm:'' @ specName @ ''@'' @ newRange)
             in configSetSpec k (linkType l) (linkId l) newSpec config)
      | _ \<Rightarrow> config)"

record pub_options =
  toArchive :: bool
  tag :: "string option"
  otp :: "string option"
  removePackageFields :: "string list"
  dryRun :: bool

text \<open>The arguments of the \<^verbatim>\<open>npm\<close> process, lines 84 to 89, without the falsy ones.\<close>

definition npmArguments :: "pub_options \<Rightarrow> string list" where
  "npmArguments options =
     [if toArchive options then ''pack'' else ''publish'']
     @ (if truthy (tag options) then [''--tag='' @ the (tag options)] else [])
     @ (if truthy (otp options) then [''--otp='' @ the (otp options)] else [])
     @ (if dryRun options then [''--dry-run''] else [])"

text \<open>\<^verbatim>\<open>fs.writeJson\<close> and \<^verbatim>\<open>fs.writeText\<close> on \<^verbatim>\<open>package.json\<close>: the file holds
  the text written, whatever it held.\<close>

definition writeFile :: "string \<Rightarrow> string option \<Rightarrow> string option" where
  "writeFile written found = Some written"

text \<open>The calls of \<^verbatim>\<open>status.set\<close> among the events, in order.\<close>

fun statusSets :: "pub_event list \<Rightarrow> (status \<times> string option) list" where
  "statusSets [] = []"
| "statusSets (StatusSet st d # evs) = (st, d) # statusSets evs"
| "statusSets (_ # evs) = statusSets evs"

record 'cfg pub_result =
  trace :: "pub_event list"
  configAfter :: 'cfg
  diskAfter :: "string option"
  publishedAfter :: "string set"
  thrown :: "pub_error option"

text \<open>
  \<^verbatim>\<open>publishFromFilesystem\<close>, lines 26 to 99. \<open>disk\<close> is the text of the workspace's
  \<^verbatim>\<open>package.json\<close> (\<open>None\<close> when it cannot be read); writing a file is taken to
  succeed. The events are in the order they happen; the \<^verbatim>\<open>finally\<close> block writes the
  saved text back after the \<^verbatim>\<open>npm\<close> process, whether that failed or not.
\<close>

definition publishFromFilesystem ::
  "'cfg collaborators \<Rightarrow> pub_options \<Rightarrow> git option \<Rightarrow> workspace \<Rightarrow> 'cfg \<Rightarrow> string option \<Rightarrow> string set
     \<Rightarrow> 'cfg pub_result" where
  "publishFromFilesystem k options g ws config disk published =
     (case validate k g ws published of
        (evs, Inl e) \<Rightarrow>
          \<lparr>trace = StatusSet pending None # evs, configAfter = config, diskAfter = disk,
           publishedAfter = published, thrown = Some e\<rparr>
      | (evs, Inr False) \<Rightarrow>
          \<lparr>trace = StatusSet pending None # evs, configAfter = config, diskAfter = disk,
           publishedAfter = published, thrown = None\<rparr>
      | (evs, Inr True) \<Rightarrow>
          (let v = the (version ws);
               kind = (if toArchive options then ''archive'' else ''registry'');
               evs1 = StatusSet pending None # evs
                        @ [LogInfo (''publishing version '' @ v @ '' from filesystem to '' @ kind)];
               config1 = fold (updateRange k) (dependencyLinks k) config;
               config2 = fold (\<lambda>field. configUnset k (splitDots [] field)) (removePackageFields options) config1;
               head = (case g of None \<Rightarrow> None | Some git \<Rightarrow> getHead git None);
               config3 = (if truthy head then configSetGitHead k (the head) config2 else config2);
               savedPackageJson = disk
           in if \<not> truthy savedPackageJson then
                \<lparr>trace = evs1, configAfter = config3, diskAfter = disk,
                 publishedAfter = published, thrown = Some AssertionFailed\<rparr>
              else
                (let saved = the savedPackageJson;
                     written = stringify k config3;
                     evs2 = evs1 @ [WriteJson written, SpawnNpm (npmArguments options), WriteText saved];
                     disk1 = writeFile written disk;
                     disk2 = map_option (npmLeaves k) disk1;
                     disk3 = writeFile saved disk2
                 in if npmFails k then
                      \<lparr>trace = evs2, configAfter = config3, diskAfter = disk3,
                       publishedAfter = published, thrown = Some NpmFailed\<rparr>
                    else
                      \<lparr>trace = evs2 @ [StatusSet success
                                 (Some ((if toArchive options then ''pack'' else ''publish'') @ '' '' @ v))],
                       configAfter = config3, diskAfter = disk3,
                       publishedAfter = insert (name ws) published, thrown = None\<rparr>)))"

section \<open>The dependency check command (src/unnamed/part_001)\<close>

text \<open>
  A promise of no value, at the level the command uses it: the logical time at which it
  settles and whether it is rejected. \<^verbatim>\<open>Promise.resolve()\<close> is settled from the start.
  \<^verbatim>\<open>p.catch(() => {})\<close> settles when \<open>p\<close> does and is never rejected. A callback given
  to \<^verbatim>\<open>p.then\<close> at time \<open>now\<close> starts once \<open>p\<close> is fulfilled, at \<open>now\<close> or when
  \<open>p\<close> settles, whichever is later, and is not run when \<open>p\<close> is rejected.
\<close>

record promise =
  settledAt :: nat
  rejected :: bool

definition promiseResolve :: promise where
  "promiseResolve = \<lparr>settledAt = 0, rejected = False\<rparr>"

definition promiseCatch :: "promise \<Rightarrow> promise" where
  "promiseCatch p = p\<lparr>rejected := False\<rparr>"

text \<open>
  One run of \<^verbatim>\<open>npm remove\<close>: how long it takes, whether the promise of \<^verbatim>\<open>spawn\<close>
  is rejected, and the exit code it leaves in \<^verbatim>\<open>process.exitCode\<close>, if any (the
  \<^verbatim>\<open>spawn\<close> of the context is not among the sources).
\<close>

record npm_run =
  duration :: nat
  spawnRejects :: bool
  spawnExitCode :: "nat option"

record spawned =
  spawnedFor :: string
  arguments :: "string list"
  startedAt :: nat
  endedAt :: nat

text \<open>
  The state the hooks share: the two module-level variables, \<^verbatim>\<open>process.exitCode\<close>
  (\<open>None\<close> for \<^verbatim>\<open>undefined\<close>), the status of each workspace by name, the
  \<^verbatim>\<open>npm\<close> processes run so far, and the lines logged.
\<close>

datatype log_line = Info string | Error string

record depcheck_state =
  npmUpdatePromise :: promise
  isFailed :: bool
  exitCode :: "nat option"
  statusOf :: "string \<Rightarrow> (status \<times> string option) option"
  processes :: "spawned list"
  logged :: "log_line list"

definition initialState :: depcheck_state where
  "initialState = \<lparr>npmUpdatePromise = promiseResolve, isFailed = False, exitCode = None,
     statusOf = (\<lambda>n. None), processes = [], logged = []\<rparr>"

text \<open>
  What one call of the \<^verbatim>\<open>each\<close> hook is given: the workspace and the keys of its three
  dependency sections, the option \<^verbatim>\<open>--fix\<close>, the source files (each with the names the
  import pattern finds in it, \<open>None\<close> when the file cannot be read), the time at which the
  call reaches the removal, and the run of \<^verbatim>\<open>npm remove\<close>. The class
  \<^verbatim>\<open>DependencySet\<close> is not among the sources: a set is the list of its names, and its
  constructor and \<^verbatim>\<open>removedUsed\<close> are parameters.
\<close>

record each_context =
  eachWorkspace :: workspace
  dependencyKeys :: "string list"
  peerDependencyKeys :: "string list"
  optionalDependencyKeys :: "string list"
  fixOption :: bool
  sourceFiles :: "(string \<times> string list option) list"
  now :: nat
  npmRemove :: npm_run

record dependency_set =
  create :: "string \<Rightarrow> string list \<Rightarrow> string list"
  removedUsed :: "string \<Rightarrow> string list \<Rightarrow> string list"

datatype hook_error = ReadFileFailed string | SpawnRejected

text \<open>\<^verbatim>\<open>Object.keys({ ...a, ...b, ...c })\<close>: a key keeps the place of its first
  occurrence.\<close>

definition mergeKeys :: "string list \<Rightarrow> string list \<Rightarrow> string list" where
  "mergeKeys xs ys = xs @ filter (\<lambda>key. key \<notin> set xs) (remdups ys)"

text \<open>\<^verbatim>\<open>/\.(?:jsx|tsx)$/u.test(filename)\<close>\<close>

definition endsWith :: "string \<Rightarrow> string \<Rightarrow> bool" where
  "endsWith s suffix = (length suffix \<le> length s \<and> drop (length s - length suffix) s = suffix)"

definition isReactFile :: "string \<Rightarrow> bool" where
  "isReactFile filename = (endsWith filename ''.jsx'' \<or> endsWith filename ''.tsx'')"

text \<open>
  The loop over the source files, lines 58 to 74: it stops when the set is empty; a file
  that cannot be read ends the hook with an error.
\<close>

fun scan :: "dependency_set \<Rightarrow> (string \<times> string list option) list \<Rightarrow> string list \<Rightarrow> hook_error + string list" where
  "scan ds [] deps = Inr deps"
| "scan ds ((filename, content) # files) deps =
     (if deps = [] then Inr deps
      else case content of
        None \<Rightarrow> Inl (ReadFileFailed filename)
      | Some names \<Rightarrow> scan ds files (fold (removedUsed ds) names deps))"

definition setStatus :: "string \<Rightarrow> status \<Rightarrow> string option \<Rightarrow> depcheck_state \<Rightarrow> depcheck_state" where
  "setStatus n st d s = s\<lparr>statusOf := (statusOf s)(n := Some (st, d))\<rparr>"

definition logInfo :: "string \<Rightarrow> depcheck_state \<Rightarrow> depcheck_state" where
  "logInfo m s = s\<lparr>logged := logged s @ [Info m]\<rparr>"

definition logError :: "string \<Rightarrow> depcheck_state \<Rightarrow> depcheck_state" where
  "logError m s = s\<lparr>logged := logged s @ [Error m]\<rparr>"

text \<open>The arguments of \<^verbatim>\<open>npm\<close>, line 102.\<close>

definition removeArguments :: "workspace \<Rightarrow> string list \<Rightarrow> string list" where
  "removeArguments w deps = (if \<not> isRoot w then [''-w'', name w] else []) @ [''remove''] @ deps"

text \<open>
  Lines 95 to 107: the module-level promise is replaced by the promise of
  \<^verbatim>\<open>npmUpdatePromise.catch(...).then(...)\<close>, and the hook awaits it. The result is the
  state when the new promise has settled.
\<close>

definition chainRemoval :: "each_context \<Rightarrow> string list \<Rightarrow> depcheck_state \<Rightarrow> depcheck_state" where
  "chainRemoval c deps s =
     (let caught = promiseCatch (npmUpdatePromise s) in
      if rejected caught then
        s\<lparr>npmUpdatePromise := \<lparr>settledAt = max (settledAt caught) (now c), rejected = True\<rparr>\<rparr>
      else
        (let start = max (settledAt caught) (now c);
             finish = start + duration (npmRemove c);
             s1 = logInfo ''Removing unused dependencies.'' s;
             s2 = s1\<lparr>processes := processes s1 @
                      [\<lparr>spawnedFor = name (eachWorkspace c), arguments = removeArguments (eachWorkspace c) deps,
                        startedAt = start, endedAt = finish\<rparr>]\<rparr>;
             s3 = (case spawnExitCode (npmRemove c) of
                     None \<Rightarrow> s2
                   | Some code \<Rightarrow> s2\<lparr>exitCode := Some code\<rparr>)
         in s3\<lparr>npmUpdatePromise := \<lparr>settledAt = finish, rejected = spawnRejects (npmRemove c)\<rparr>\<rparr>))"

text \<open>The \<^verbatim>\<open>each\<close> hook, lines 18 to 111: the state it leaves and the error it throws,
  if any.\<close>

definition each :: "dependency_set \<Rightarrow> each_context \<Rightarrow> depcheck_state \<Rightarrow> depcheck_state \<times> hook_error option" where
  "each ds c s =
     (if \<not> isSelected (eachWorkspace c) then (s, None)
      else
        (let n = name (eachWorkspace c);
             s1 = setStatus n pending None (logInfo ''Checking dependencies.'' s);
             deps0 = create ds (dir (eachWorkspace c))
                       (mergeKeys (mergeKeys (dependencyKeys c) (peerDependencyKeys c)) (optionalDependencyKeys c))
         in if deps0 = [] then
              (setStatus n success (Some ''no dependencies'') (logInfo ''No dependencies found.'' s1), None)
            else
              (let isReact = list_ex (\<lambda>file. isReactFile (fst file)) (sourceFiles c);
                   deps1 = (if isReact then removedUsed ds ''react'' deps0 else deps0);
                   s2 = logInfo ''Scanning for imports and requires.'' s1
               in case scan ds (sourceFiles c) deps1 of
                    Inl e \<Rightarrow> (s2, Some e)
                  | Inr deps \<Rightarrow>
                      if deps = [] then
                        (setStatus n success None (logInfo ''All dependencies are used.'' s2), None)
                      else if \<not> fixOption c then
                        (let s3 = fold (\<lambda>d. logError (''  - '' @ d)) deps (logError ''Unused dependencies:'' s2);
                             s4 = setStatus n failure None s3
                         in (s4\<lparr>isFailed := True\<rparr>, None))
                      else
                        (let s3 = chainRemoval c deps s2
                         in if rejected (npmUpdatePromise s3) then (s3, Some SpawnRejected)
                            else (setStatus n success (Some ''fixed'')
                                    (logInfo ''All remaining dependencies are used.'' s3), None)))))"

text \<open>The \<^verbatim>\<open>after\<close> hook, lines 112 to 121: \<^verbatim>\<open>process.exitCode ||= 1\<close> when a
  workspace failed.\<close>

definition orOne :: "nat option \<Rightarrow> nat option" where
  "orOne code = (case code of None \<Rightarrow> Some 1 | Some c \<Rightarrow> if c = 0 then Some 1 else Some c)"


text \<open>
  The hooks as the command object wraps them (src/packages/werk/src/command/command.ts): the
  wrapper of a hook logs an error the hook throws and sets
  \<^verbatim>\<open>process.exitCode = process.exitCode || 1\<close>; it never throws itself.
\<close>

fun errorMessage :: "hook_error \<Rightarrow> string" where
  "errorMessage (ReadFileFailed filename) = ''cannot read '' @ filename"
| "errorMessage SpawnRejected = ''npm remove failed''"

definition commandEach :: "dependency_set \<Rightarrow> each_context \<Rightarrow> depcheck_state \<Rightarrow> depcheck_state" where
  "commandEach ds c s =
     (case each ds c s of
        (s', None) \<Rightarrow> s'
      | (s', Some e) \<Rightarrow> (logError (errorMessage e) s')\<lparr>exitCode := orOne (exitCode s')\<rparr>)"





text \<open>The names left in the set when the scan is over, if the hook gets that far.\<close>

definition unused :: "dependency_set \<Rightarrow> each_context \<Rightarrow> (hook_error + string list)" where
  "unused ds c =
     (let deps0 = create ds (dir (eachWorkspace c))
                    (mergeKeys (mergeKeys (dependencyKeys c) (peerDependencyKeys c)) (optionalDependencyKeys c));
          deps1 = (if list_ex (\<lambda>file. isReactFile (fst file)) (sourceFiles c)
                   then removedUsed ds ''react'' deps0 else deps0)
      in if deps0 = [] then Inr [] else scan ds (sourceFiles c) deps1)"

text \<open>No process starts before the one run before it has ended.\<close>

fun oneAtATime :: "spawned list \<Rightarrow> bool" where
  "oneAtATime [] = True"
| "oneAtATime [x] = (startedAt x \<le> endedAt x)"
| "oneAtATime (x # y # rest) = (startedAt x \<le> endedAt x \<and> endedAt x \<le> startedAt y \<and> oneAtATime (y # rest))"


text \<open>A call of the hook without \<^verbatim>\<open>--fix\<close> that throws nothing: the workspace is not
  selected, or the scan can read every source file it opens (lemma \<open>returnsQuietly_iff\<close>).\<close>

definition returnsQuietly :: "dependency_set \<Rightarrow> each_context \<Rightarrow> bool" where
  "returnsQuietly ds c =
     (\<not> fixOption c
      \<and> (\<not> isSelected (eachWorkspace c) \<or> (case unused ds c of Inl e \<Rightarrow> False | Inr deps \<Rightarrow> True)))"

text \<open>The processes run so far were run one at a time, and the module-level promise settles
  no earlier than the last of them ends.\<close>

definition settledBy :: "depcheck_state \<Rightarrow> bool" where
  "settledBy s = (oneAtATime (processes s)
      \<and> (processes s \<noteq> [] \<longrightarrow> endedAt (last (processes s)) \<le> settledAt (npmUpdatePromise s)))"

section \<open>The version command (src/commands/version/src/command.ts)\<close>




section \<open>A small repository, for evaluating the definitions\<close>

definition exampleRule :: "string \<Rightarrow> workspace \<Rightarrow> bool" where
  "exampleRule e x = (e = name x)"

definition exampleRoot :: workspace where
  "exampleRoot = \<lparr>name = ''repo'', dir = ''/repo'', isRoot = True, isPrivate = True,
     version = None, isSelected = False, status = pending, detail = None, isModified = False\<rparr>"

definition exampleA :: workspace where
  "exampleA = \<lparr>name = ''pkg-a'', dir = ''/repo/a'', isRoot = False, isPrivate = False,
     version = Some ''1.0.0'', isSelected = False, status = pending, detail = None, isModified = False\<rparr>"

definition exampleB :: workspace where
  "exampleB = \<lparr>name = ''pkg-b'', dir = ''/repo/b'', isRoot = False, isPrivate = False,
     version = Some ''1.2.0'', isSelected = False, status = pending, detail = None, isModified = False\<rparr>"

definition exampleWorld :: world where
  "exampleWorld = \<lparr>workspaceEntries = [(''/repo/a'', True), (''/repo/b'', True)],
     registry = [exampleRoot, exampleA, exampleB], graph = [(2, 1)], rootScripts = [''lint''],
     spawnPackageScriptFails = False\<rparr>"

definition exampleEnv :: env where
  "exampleEnv = \<lparr>WURK_WORKSPACE_EXPRESSIONS = [], WURK_INCLUDE_ROOT_WORKSPACE = False,
     WURK_PARALLEL = False, WURK_STREAM = False, WURK_CONCURRENCY = None,
     WURK_RUNNING_COMMANDS = None\<rparr>"

definition exampleOptions :: options where
  "exampleOptions = \<lparr>optExpressions = None, optIncludeRootWorkspace = None, optParallel = None,
     optStream = None, optConcurrency = None, optScript = None, optScriptArgs = []\<rparr>"


text \<open>
  Collaborators for the examples. The manifest is the list of the edits made to it. Of
  \<^verbatim>\<open>semver\<close> only what the examples need: a version satisfies the caret range of
  the version itself; a release version satisfies a wildcard, and a prerelease version (one
  with a hyphen) does not, as \<^verbatim>\<open>semver.satisfies\<close> accepts a prerelease version only
  for a range that names a prerelease of the same version; the least version of a caret
  range is the version after the caret. The registry has \<^verbatim>\<open>pkg-a@1.0.0\<close> only.
\<close>

definition exampleCollaborators :: "string list collaborators" where
  "exampleCollaborators =
     \<lparr>satisfies = (\<lambda>v r. r = ''^'' @ v \<or> (CHR ''-'' \<notin> set v \<and> (r = ''*'' \<or> r = ''x''))),
      minVersion = (\<lambda>r. case r of [] \<Rightarrow> None | c # rest \<Rightarrow> if c = CHR ''^'' then Some rest else None),
      getMetadata = (\<lambda>n v. if n = ''pkg-a'' \<and> v = ''1.0.0'' then Some \<lparr>gitHead = None\<rparr> else None),
      configSetSpec = (\<lambda>t i r c. c @ [i @ ''='' @ r]),
      configUnset = (\<lambda>path c. c @ [''delete '' @ join path]),
      configSetGitHead = (\<lambda>h c. c @ [''gitHead='' @ h]),
      stringify = join,
      changelog = None,
      packedFiles = Some [''package.json'', ''index.js''],
      entrypoints = [(''main'', ''index.js'')],
      relativeStartsWithDotDot = (\<lambda>entry packed. entry \<noteq> packed),
      dependencyLinks = [\<lparr>linkType = dependencies, linkId = ''pkg-a'',
                          linkSpec = NpmSpec ''pkg-a'' ''^1.0.0'', dependency = exampleA\<rparr>],
      npmFails = False,
      npmLeaves = (\<lambda>found. found)\<rparr>"






definition examplePubOptions :: pub_options where
  "examplePubOptions = \<lparr>toArchive = False, tag = None, otp = None, removePackageFields = [],
     dryRun = False\<rparr>"

text \<open>Two calls of the dependency check: \<^verbatim>\<open>pkg-a\<close> declares \<^verbatim>\<open>lodash\<close> and
  \<^verbatim>\<open>react\<close> and has a \<^verbatim>\<open>.tsx\<close> file, \<^verbatim>\<open>pkg-b\<close> declares \<^verbatim>\<open>chalk\<close> and
  \<^verbatim>\<open>left-pad\<close> and imports the first.\<close>

definition exampleDependencySet :: dependency_set where
  "exampleDependencySet = \<lparr>create = (\<lambda>d names. names), removedUsed = (\<lambda>n deps. removeAll n deps)\<rparr>"

definition exampleCheckA :: each_context where
  "exampleCheckA = \<lparr>eachWorkspace = exampleA\<lparr>isSelected := True\<rparr>,
     dependencyKeys = [''lodash'', ''react''], peerDependencyKeys = [], optionalDependencyKeys = [],
     fixOption = False, sourceFiles = [(''src/index.tsx'', Some [''./util''])], now = 5,
     npmRemove = \<lparr>duration = 3, spawnRejects = True, spawnExitCode = Some 1\<rparr>\<rparr>"

definition exampleCheckB :: each_context where
  "exampleCheckB = \<lparr>eachWorkspace = exampleB\<lparr>isSelected := True\<rparr>,
     dependencyKeys = [''chalk'', ''left-pad''], peerDependencyKeys = [], optionalDependencyKeys = [],
     fixOption = False, sourceFiles = [(''src/b.ts'', Some [''chalk''])], now = 6,
     npmRemove = \<lparr>duration = 2, spawnRejects = False, spawnExitCode = None\<rparr>\<rparr>"

text \<open>A third call, between the two: the only source file of \<^verbatim>\<open>pkg-c\<close> cannot be
  read.\<close>

definition exampleCheckC :: each_context where
  "exampleCheckC = \<lparr>eachWorkspace = exampleB\<lparr>name := ''pkg-c'', dir := ''packages/c'', isSelected := True\<rparr>,
     dependencyKeys = [''chalk''], peerDependencyKeys = [], optionalDependencyKeys = [],
     fixOption = False, sourceFiles = [(''src/c.ts'', None)], now = 6,
     npmRemove = \<lparr>duration = 2, spawnRejects = False, spawnExitCode = None\<rparr>\<rparr>"







section \<open>Theorems\<close>

subsection \<open>Package-manager detection\<close>

lemma looseNotEqualNull_accessExists: "looseNotEqualNull (accessExists b)"
  by (simp add: looseNotEqualNull_def accessExists_def)

text \<open>
  C8. In a directory whose \<^verbatim>\<open>package.json\<close> has no \<^verbatim>\<open>packageManager\<close>
  string but has a \<^verbatim>\<open>workspaces\<close> field, \<open>tryCreatePackageManager\<close> returns a
  Yarn instance whatever \<^verbatim>\<open>nodeFs.access\<close> says of \<^verbatim>\<open>yarn.lock\<close>: the
  boolean is compared with \<^verbatim>\<open>null\<close>. The branch that returns Npm after that test
  is never taken: whenever the function returns an Npm instance, the manifest has a
  \<^verbatim>\<open>packageManager\<close> field whose name part is \<^verbatim>\<open>npm\<close>.
\<close>

theorem tryCreatePackageManager_workspaces_yarn:
  "(packageJson d = Some config \<and> packageManagerField config = None \<and> workspacesExists config
      \<longrightarrow> tryCreatePackageManager rootDir d = Inr (Some (Yarn rootDir)))
   \<and> (tryCreatePackageManager rootDir d = Inr (Some (Npm r))
      \<longrightarrow> (\<exists>config packageManager. packageJson d = Some config
            \<and> packageManagerField config = Some packageManager
            \<and> matchName packageManager = Some ''npm''))"
  by (auto simp: tryCreatePackageManager_def looseNotEqualNull_accessExists Let_def
           split: option.splits if_splits)

theorem tryCreatePackageManager_workspaces_yarn_witness:
  "tryCreatePackageManager ''/repo''
     \<lparr>packageJson = Some \<lparr>packageManagerField = None, workspacesExists = True\<rparr>,
      yarnLockAccess = False, pnpmLockAccess = False\<rparr> = Inr (Some (Yarn ''/repo''))
   \<and> tryCreatePackageManager ''/repo''
     \<lparr>packageJson = Some \<lparr>packageManagerField = Some ''npm@10.2.0'', workspacesExists = True\<rparr>,
      yarnLockAccess = False, pnpmLockAccess = False\<rparr> = Inr (Some (Npm ''/repo''))
   \<and> matchName ''npm@10.2.0'' = Some ''npm''"
  using tryCreatePackageManager_workspaces_yarn
    [of "\<lparr>packageJson = Some \<lparr>packageManagerField = None, workspacesExists = True\<rparr>,
          yarnLockAccess = False, pnpmLockAccess = False\<rparr>"
        "\<lparr>packageManagerField = None, workspacesExists = True\<rparr>" "''/repo''"]
  by (simp add: tryCreatePackageManager_def matchName_def)


subsection \<open>The command-line action\<close>

lemma construct_selection:
  "selection (construct rule w e1 res opts) =
     Some (select rule (if expressions res \<noteq> [] then expressions res else [''**''])
       (newWorkspaceCollection (registry w) (graph w) (includeRoot res) (concurrencyCount res)
          (iterationMethodOf (parallel res) (stream res))))"
  by (simp add: construct_def Let_def split: option.splits)

lemma construct_events:
  "take 4 (events (construct rule w e1 res opts)) =
     [GetWorkspaces,
      NewWorkspaceCollection (includeRoot res) (concurrencyCount res) (iterationMethodOf (parallel res) (stream res)),
      Select (if expressions res \<noteq> [] then expressions res else [''**'']), PluginsInit]"
  by (simp add: construct_def Let_def split: option.splits)

lemma construct_outcome: "outcome (construct rule w e1 res opts) \<noteq> ProcessExit n"
  by (simp add: construct_def Let_def split: option.splits)

lemma action_selection:
  "selection (action rule w e opts cmd) = Some c \<Longrightarrow>
   c = select rule (if expressions (destructure e opts) \<noteq> [] then expressions (destructure e opts) else [''**''])
       (newWorkspaceCollection (registry w) (graph w) (includeRoot (destructure e opts))
          (concurrencyCount (destructure e opts))
          (iterationMethodOf (parallel (destructure e opts)) (stream (destructure e opts))))"
  by (auto simp: action_def Let_def construct_selection split: if_splits list.splits)

lemma action_proceeds:
  "\<not> arrayIncludes (runningCommands e) cmd \<Longrightarrow> \<forall>entry \<in> set (workspaceEntries w). snd entry \<Longrightarrow>
   action rule w e opts cmd =
     construct rule w (e\<lparr>WURK_RUNNING_COMMANDS := Some (appendRunning (runningCommands e) cmd)\<rparr>)
       (destructure e opts) opts"
proof -
  assume a: "\<not> arrayIncludes (runningCommands e) cmd" and b: "\<forall>entry \<in> set (workspaceEntries w). snd entry"
  have "filter (\<lambda>entry. \<not> snd entry) (workspaceEntries w) = []"
    using b by (simp add: filter_empty_conv)
  then show ?thesis using a by (simp add: action_def Let_def)
qed

lemma select_fields:
  "defaultIterationMethod (select rule xs c) = defaultIterationMethod c"
  "includeRootWorkspace (select rule xs c) = includeRootWorkspace c"
  by (simp_all add: select_def)

lemma select_wildcard:
  "x \<in> set (workspaces (select rule [''**''] c)) \<Longrightarrow>
     (\<not> isRoot x \<longrightarrow> isSelected x) \<and> (isRoot x \<and> isSelected x \<longrightarrow> includeRootWorkspace c)"
  by (auto simp: select_def isMatchTarget_def matchesExpression_def)


subsection \<open>Splitting and joining the running commands\<close>

lemma comma_not_space: "\<not> isSpace (CHR '','')"
  by (simp add: isSpace_def)

lemma matchSeparator_comma_free:
  "CHR '','' \<notin> set s \<Longrightarrow> matchSeparator s = None"
proof -
  assume a: "CHR '','' \<notin> set s"
  have "set (dropWhile isSpace s) \<subseteq> set s" by (simp add: set_dropWhileD subsetI)
  then show ?thesis using a
    by (auto simp: matchSeparator_def split: list.splits)
qed

lemma splitFrom_comma_free:
  "CHR '','' \<notin> set p \<Longrightarrow> splitFrom piece p = [rev piece @ p]"
proof (induction p arbitrary: piece)
  case Nil
  then show ?case by simp
next
  case (Cons c p)
  have "matchSeparator (c # p) = None" using Cons.prems by (rule matchSeparator_comma_free)
  moreover have "CHR '','' \<notin> set p" using Cons.prems by simp
  ultimately show ?case using Cons.IH[of "c # piece"] by simp
qed

lemma matchSeparator_prefix:
  assumes "CHR '','' \<notin> set p"
  shows "matchSeparator (p @ CHR '','' # rest) =
           (if \<forall>c \<in> set p. isSpace c then Some (dropWhile isSpace rest) else None)"
proof (cases "\<forall>c \<in> set p. isSpace c")
  case True
  then have "dropWhile isSpace (p @ CHR '','' # rest) = CHR '','' # rest"
    by (simp add: dropWhile_append2 comma_not_space)
  then show ?thesis using True by (simp add: matchSeparator_def)
next
  case False
  then have ne: "dropWhile isSpace p \<noteq> []" by (simp add: dropWhile_eq_Nil_conv)
  then obtain c t where ct: "dropWhile isSpace p = c # t" by (cases "dropWhile isSpace p") auto
  have "c \<in> set p" using ct set_dropWhileD[of c isSpace p] by simp
  then have "c \<noteq> CHR '',''" using assms by auto
  moreover have "dropWhile isSpace (p @ CHR '','' # rest) = c # t @ CHR '','' # rest"
    using False ct by (simp add: dropWhile_append comma_not_space)
  ultimately show ?thesis using False by (simp add: matchSeparator_def)
qed

lemma trimEnd_all_space: "\<forall>c \<in> set p. isSpace c \<Longrightarrow> trimEnd p = []"
  by (simp add: trimEnd_def dropWhile_eq_Nil_conv)

lemma trimEnd_Cons: "\<not> (\<forall>x \<in> set (c # p). isSpace x) \<Longrightarrow> trimEnd (c # p) = c # trimEnd p"
  by (auto simp: trimEnd_def dropWhile_append)

lemma splitFrom_piece:
  "CHR '','' \<notin> set p \<Longrightarrow>
   splitFrom piece (p @ CHR '','' # rest) = (rev piece @ trimEnd p) # splitFrom [] (dropWhile isSpace rest)"
proof (induction p arbitrary: piece)
  case Nil
  have "matchSeparator (CHR '','' # rest) = Some (dropWhile isSpace rest)"
    by (simp add: matchSeparator_def comma_not_space)
  then show ?case by (simp add: trimEnd_def)
next
  case (Cons c p)
  have cf: "CHR '','' \<notin> set p" using Cons.prems by simp
  show ?case
  proof (cases "\<forall>x \<in> set (c # p). isSpace x")
    case True
    have "matchSeparator ((c # p) @ CHR '','' # rest) = Some (dropWhile isSpace rest)"
      using matchSeparator_prefix[OF Cons.prems, of rest] True by simp
    then show ?thesis using trimEnd_all_space[OF True] by simp
  next
    case False
    have "matchSeparator ((c # p) @ CHR '','' # rest) = None"
      using matchSeparator_prefix[OF Cons.prems, of rest] False by simp
    then show ?thesis using Cons.IH[OF cf, of "c # piece"] trimEnd_Cons[OF False] by simp
  qed
qed

lemma trimEnd_plain: "plainName n \<Longrightarrow> trimEnd n = n"
  by (cases n rule: rev_cases) (auto simp: plainName_def trimEnd_def)

lemma dropWhile_plain_ne: "plainName n \<Longrightarrow> n \<noteq> [] \<Longrightarrow> dropWhile isSpace n = n"
  by (cases n) (auto simp: plainName_def)

lemma join_Cons: "ys \<noteq> [] \<Longrightarrow> join (x # ys) = x @ CHR '','' # join ys"
  by (cases ys) auto

text \<open>A plain name among the joined strings is a piece of the split again, with or without
  the leading white space dropped first.\<close>

lemma plain_member_split_join:
  assumes "plainName n"
  shows "n \<in> set ys \<Longrightarrow> \<forall>x \<in> set (butlast ys). CHR '','' \<notin> set x \<Longrightarrow>
         n \<in> set (splitFrom [] (join ys)) \<and> n \<in> set (splitFrom [] (dropWhile isSpace (join ys)))"
proof (induction ys)
  case Nil
  then show ?case by simp
next
  case (Cons y ys)
  have ncf: "CHR '','' \<notin> set n" using assms by (simp add: plainName_def)
  show ?case
  proof (cases "ys = []")
    case True
    then have yn: "y = n" using Cons.prems by simp
    have a: "splitFrom [] n = [n]" using splitFrom_comma_free[OF ncf, of "[]"] by simp
    have "set (dropWhile isSpace n) \<subseteq> set n" by (simp add: set_dropWhileD subsetI)
    then have "CHR '','' \<notin> set (dropWhile isSpace n)" using ncf by auto
    then have b: "splitFrom [] (dropWhile isSpace n) = [dropWhile isSpace n]"
      using splitFrom_comma_free[of "dropWhile isSpace n" "[]"] by simp
    have c: "dropWhile isSpace n = n" using assms dropWhile_plain_ne by (cases "n = []") auto
    show ?thesis using True yn a b c by simp
  next
    case False
    then have ycf: "CHR '','' \<notin> set y" using Cons.prems by simp
    have j: "join (y # ys) = y @ CHR '','' # join ys" using False by (rule join_Cons)
    have s1: "splitFrom [] (join (y # ys)) = trimEnd y # splitFrom [] (dropWhile isSpace (join ys))"
      using splitFrom_piece[OF ycf, of "[]" "join ys"] j by simp
    have d: "dropWhile isSpace (join (y # ys)) = dropWhile isSpace y @ CHR '','' # join ys"
      using j by (simp add: dropWhile_append3 comma_not_space)
    have "set (dropWhile isSpace y) \<subseteq> set y" by (simp add: set_dropWhileD subsetI)
    then have dcf: "CHR '','' \<notin> set (dropWhile isSpace y)" using ycf by auto
    have s2: "splitFrom [] (dropWhile isSpace (join (y # ys))) =
                trimEnd (dropWhile isSpace y) # splitFrom [] (dropWhile isSpace (join ys))"
      using splitFrom_piece[OF dcf, of "[]" "join ys"] d by simp
    show ?thesis
    proof (cases "n = y")
      case True
      have "trimEnd y = n" using True assms trimEnd_plain by simp
      moreover have "dropWhile isSpace y = n" using True assms dropWhile_plain_ne by (cases "n = []") auto
      ultimately show ?thesis using s1 s2 assms trimEnd_plain by simp
    next
      case neq: False
      then have "n \<in> set ys" using Cons.prems by simp
      moreover have "\<forall>x \<in> set (butlast ys). CHR '','' \<notin> set x" using Cons.prems False by simp
      ultimately have "n \<in> set (splitFrom [] (dropWhile isSpace (join ys)))" using Cons.IH by simp
      then show ?thesis using s1 s2 by simp
    qed
  qed
qed

lemma splitFrom_pieces_comma_free:
  "CHR '','' \<notin> set piece \<Longrightarrow> x \<in> set (splitFrom piece s) \<Longrightarrow> CHR '','' \<notin> set x"
proof (induction piece s rule: splitFrom.induct)
  case (1 piece)
  then show ?case by simp
next
  case (2 piece c s)
  show ?case
  proof (cases "matchSeparator (c # s)")
    case None
    have "c \<noteq> CHR '',''" using None by (auto simp: matchSeparator_def comma_not_space)
    then show ?thesis using 2 None by simp
  next
    case (Some r)
    then show ?thesis using 2 by auto
  qed
qed

lemma construct_running:
  "WURK_RUNNING_COMMANDS (envAfter (construct rule w e1 res opts)) = WURK_RUNNING_COMMANDS e1"
  by (simp add: construct_def Let_def split: option.splits)

lemma runningCommands_comma_free: "x \<in> set (runningCommands e) \<Longrightarrow> CHR '','' \<notin> set x"
  using splitFrom_pieces_comma_free[of "[]" x]
  by (auto simp: runningCommands_def split_def split: option.splits)

lemma action_exits:
  "arrayIncludes (runningCommands e) cmd \<Longrightarrow>
   action rule w e opts cmd = \<lparr>events = [], envAfter = e, selection = None, outcome = ProcessExit 0\<rparr>"
  by (simp add: action_def Let_def)

lemma action_running:
  "\<not> arrayIncludes (runningCommands e) cmd \<Longrightarrow>
   WURK_RUNNING_COMMANDS (envAfter (action rule w e opts cmd)) = Some (appendRunning (runningCommands e) cmd)"
  by (simp add: action_def Let_def construct_running split: list.splits)

lemma appended_includes:
  assumes "plainName n" and "n \<in> set (runningCommands e @ [m])"
  shows "n \<in> set (split (join (runningCommands e @ [m])))"
proof -
  have "\<forall>x \<in> set (butlast (runningCommands e @ [m])). CHR '','' \<notin> set x"
    using runningCommands_comma_free by simp
  then show ?thesis using plain_member_split_join[OF assms(1) assms(2)] by (simp add: split_def)
qed

lemma action_keeps_blocked:
  assumes "plainName n" and "arrayIncludes (runningCommands e) (Some n)"
  shows "arrayIncludes (runningCommands (envAfter (action rule w e opts cmd))) (Some n)"
proof (cases "arrayIncludes (runningCommands e) cmd")
  case True
  then show ?thesis using assms(2) by (simp add: action_exits)
next
  case False
  have n: "n \<in> set (runningCommands e)" using assms(2) by (simp add: arrayIncludes_def)
  have "n \<in> set (split (appendRunning (runningCommands e) cmd))"
    unfolding appendRunning_def using appended_includes[OF assms(1), of e] n by simp
  then show ?thesis using action_running[OF False, of rule w opts]
    by (simp add: runningCommands_def arrayIncludes_def)
qed

lemma action_blocks_itself:
  assumes "plainName n"
  shows "arrayIncludes (runningCommands (envAfter (action rule w e opts (Some n)))) (Some n)"
proof (cases "arrayIncludes (runningCommands e) (Some n)")
  case True
  then show ?thesis by (simp add: action_exits)
next
  case False
  have "n \<in> set (split (appendRunning (runningCommands e) (Some n)))"
    unfolding appendRunning_def using appended_includes[OF assms, of e n] by simp
  then show ?thesis using action_running[OF False, of rule w opts]
    by (simp add: runningCommands_def arrayIncludes_def)
qed

lemma nested_keeps_blocked:
  "plainName n \<Longrightarrow> arrayIncludes (runningCommands e) (Some n) \<Longrightarrow>
   arrayIncludes (runningCommands (nested rule chain e)) (Some n)"
proof (induction chain arbitrary: e)
  case Nil
  then show ?case by simp
next
  case (Cons i chain)
  have "arrayIncludes (runningCommands (envAfter (mainAsync rule (invWorld i) e (invOptions i) (invCommand i)))) (Some n)"
    unfolding mainAsync_def using action_keeps_blocked[OF Cons.prems] by simp
  then show ?case using Cons.IH[OF Cons.prems(1)] by simp
qed


lemma action_events:
  "selection (action rule w e opts cmd) = Some c \<Longrightarrow>
   take 4 (events (action rule w e opts cmd)) =
     [GetWorkspaces,
      NewWorkspaceCollection (includeRoot (destructure e opts)) (concurrencyCount (destructure e opts))
        (iterationMethodOf (parallel (destructure e opts)) (stream (destructure e opts))),
      Select (if expressions (destructure e opts) \<noteq> [] then expressions (destructure e opts) else [''**'']),
      PluginsInit]"
  by (auto simp: action_def Let_def construct_events split: if_splits list.splits)

lemma newWorkspaceCollection_method:
  "defaultIterationMethod (newWorkspaceCollection r g i k m) = m"
  by (simp add: newWorkspaceCollection_def)

text \<open>
  C1. Whenever an invocation constructs the workspace collection, the
  \<^verbatim>\<open>defaultIterationMethod\<close> it passes (and the collection holds) is
  \<open>forEachParallel\<close> when \<open>parallel\<close> is set, \<open>forEachStream\<close> when \<open>stream\<close> is set
  and \<open>parallel\<close> is not, and \<open>forEachSequential\<close> when neither is set; so parallel wins
  when both are set. The two flags are the values the action destructures from its options:
  the command-line option when it was given, the value of \<^verbatim>\<open>WURK_PARALLEL\<close> or
  \<^verbatim>\<open>WURK_STREAM\<close> otherwise, \<open>stream\<close> being set by \<^verbatim>\<open>--concurrency\<close> as well.
\<close>

theorem mainAsync_defaultIterationMethod:
  assumes "selection (mainAsync rule w e opts cmd) = Some c"
    and "res = destructure e (optionActionConcurrency opts)"
  shows "NewWorkspaceCollection (includeRoot res) (concurrencyCount res) (defaultIterationMethod c)
           \<in> set (events (mainAsync rule w e opts cmd))
         \<and> (parallel res \<longrightarrow> defaultIterationMethod c = forEachParallel)
         \<and> (stream res \<and> \<not> parallel res \<longrightarrow> defaultIterationMethod c = forEachStream)
         \<and> (\<not> parallel res \<and> \<not> stream res \<longrightarrow> defaultIterationMethod c = forEachSequential)"
proof -
  let ?opts = "optionActionConcurrency opts"
  have sel: "selection (action rule w e ?opts cmd) = Some c"
    using assms(1) by (simp add: mainAsync_def)
  have m: "defaultIterationMethod c = iterationMethodOf (parallel res) (stream res)"
    using action_selection[OF sel] assms(2)
    by (simp add: select_fields newWorkspaceCollection_method)
  have "NewWorkspaceCollection (includeRoot res) (concurrencyCount res) (defaultIterationMethod c)
          \<in> set (take 4 (events (action rule w e ?opts cmd)))"
    using action_events[OF sel] assms(2) m by simp
  then have ev: "NewWorkspaceCollection (includeRoot res) (concurrencyCount res) (defaultIterationMethod c)
          \<in> set (events (mainAsync rule w e opts cmd))"
    by (auto simp: mainAsync_def dest: in_set_takeD)
  show ?thesis using ev m by (simp add: iterationMethodOf_def)
qed

theorem mainAsync_defaultIterationMethod_witness:
  "(\<exists>c. selection (mainAsync exampleRule exampleWorld exampleEnv
            (exampleOptions\<lparr>optParallel := Some True, optStream := Some True\<rparr>) (Some ''build'')) = Some c
        \<and> defaultIterationMethod c = forEachParallel)
   \<and> (\<exists>c. selection (mainAsync exampleRule exampleWorld exampleEnv
            (exampleOptions\<lparr>optConcurrency := Some 2\<rparr>) (Some ''build'')) = Some c
        \<and> defaultIterationMethod c = forEachStream)
   \<and> (\<exists>c. selection (mainAsync exampleRule exampleWorld exampleEnv exampleOptions (Some ''build'')) = Some c
        \<and> defaultIterationMethod c = forEachSequential)"
proof -
  let ?both = "exampleOptions\<lparr>optParallel := Some True, optStream := Some True\<rparr>"
  let ?conc = "exampleOptions\<lparr>optConcurrency := Some 2\<rparr>"
  have ev: "\<And>given. selection (mainAsync exampleRule exampleWorld exampleEnv given (Some ''build'')) \<noteq> None"
    by (simp add: mainAsync_def action_def Let_def runningCommands_def arrayIncludes_def
        exampleEnv_def exampleWorld_def construct_selection)
  obtain c1 where c1: "selection (mainAsync exampleRule exampleWorld exampleEnv ?both (Some ''build'')) = Some c1"
    using ev[of ?both] by auto
  obtain c2 where c2: "selection (mainAsync exampleRule exampleWorld exampleEnv ?conc (Some ''build'')) = Some c2"
    using ev[of ?conc] by auto
  obtain c3 where c3: "selection (mainAsync exampleRule exampleWorld exampleEnv exampleOptions (Some ''build'')) = Some c3"
    using ev[of exampleOptions] by auto
  have "defaultIterationMethod c1 = forEachParallel"
    using mainAsync_defaultIterationMethod[OF c1 refl]
    by (simp add: destructure_def optionActionConcurrency_def exampleOptions_def)
  moreover have "defaultIterationMethod c2 = forEachStream"
    using mainAsync_defaultIterationMethod[OF c2 refl]
    by (simp add: destructure_def optionActionConcurrency_def exampleOptions_def exampleEnv_def)
  moreover have "defaultIterationMethod c3 = forEachSequential"
    using mainAsync_defaultIterationMethod[OF c3 refl]
    by (simp add: destructure_def optionActionConcurrency_def exampleOptions_def exampleEnv_def)
  ultimately show ?thesis using c1 c2 c3 by simp
qed


text \<open>
  C2. When no workspace expression is given on the command line and the
  \<^verbatim>\<open>WURK_WORKSPACE_EXPRESSIONS\<close> fallback yields none, an invocation that reaches the
  selection calls \<^verbatim>\<open>select\<close> with the single expression \<^verbatim>\<open>**\<close>. With \<open>select\<close>
  as the spec describes it, every non-root workspace of the registry is then selected, and
  the root workspace is selected only if \<open>includeRootWorkspace\<close> was enabled when the
  collection was constructed.
\<close>

theorem mainAsync_selects_wildcard:
  assumes "optExpressions opts = None" and "WURK_WORKSPACE_EXPRESSIONS e = []"
    and "\<not> arrayIncludes (runningCommands e) cmd"
    and "\<forall>entry \<in> set (workspaceEntries w). snd entry"
  shows "\<exists>c. selection (mainAsync rule w e opts cmd) = Some c
           \<and> Select [''**''] \<in> set (events (mainAsync rule w e opts cmd))
           \<and> map name (workspaces c) = map name (registry w)
           \<and> map isRoot (workspaces c) = map isRoot (registry w)
           \<and> (\<forall>x \<in> set (workspaces c). \<not> isRoot x \<longrightarrow> isSelected x)
           \<and> (\<forall>x \<in> set (workspaces c). isRoot x \<and> isSelected x \<longrightarrow> includeRootWorkspace c)
           \<and> includeRootWorkspace c = includeRoot (destructure e opts)"
proof -
  let ?opts = "optionActionConcurrency opts"
  let ?res = "destructure e ?opts"
  let ?c = "select rule [''**'']
       (newWorkspaceCollection (registry w) (graph w) (includeRoot ?res) (concurrencyCount ?res)
          (iterationMethodOf (parallel ?res) (stream ?res)))"
  have ex: "expressions ?res = []"
    using assms(1,2) by (simp add: destructure_def optionActionConcurrency_def)
  have inc: "includeRoot ?res = includeRoot (destructure e opts)"
    by (simp add: destructure_def optionActionConcurrency_def)
  have run: "mainAsync rule w e opts cmd =
      construct rule w (e\<lparr>WURK_RUNNING_COMMANDS := Some (appendRunning (runningCommands e) cmd)\<rparr>) ?res ?opts"
    using action_proceeds[OF assms(3,4)] by (simp add: mainAsync_def)
  have sel: "selection (mainAsync rule w e opts cmd) = Some ?c"
    using run ex by (simp add: construct_selection)
  have "Select [''**''] \<in> set (take 4 (events (mainAsync rule w e opts cmd)))"
    using run ex by (simp add: construct_events)
  then have ev: "Select [''**''] \<in> set (events (mainAsync rule w e opts cmd))"
    by (rule in_set_takeD)
  have nm: "map name (workspaces ?c) = map name (registry w)"
    by (simp add: select_def newWorkspaceCollection_def comp_def)
  have rt: "map isRoot (workspaces ?c) = map isRoot (registry w)"
    by (simp add: select_def newWorkspaceCollection_def comp_def)
  have a: "\<forall>x \<in> set (workspaces ?c). \<not> isRoot x \<longrightarrow> isSelected x"
    using select_wildcard by blast
  have b: "\<forall>x \<in> set (workspaces ?c). isRoot x \<and> isSelected x \<longrightarrow> includeRootWorkspace ?c"
    using select_wildcard by (auto simp: select_fields)
  have i: "includeRootWorkspace ?c = includeRoot (destructure e opts)"
    using inc by (simp add: select_fields newWorkspaceCollection_def)
  show ?thesis using sel ev nm rt a b i by blast
qed

theorem mainAsync_selects_wildcard_witness:
  "\<exists>c. selection (mainAsync exampleRule exampleWorld exampleEnv exampleOptions (Some ''build'')) = Some c
      \<and> map isSelected (workspaces c) = [False, True, True]
      \<and> Select [''**''] \<in> set (events (mainAsync exampleRule exampleWorld exampleEnv exampleOptions (Some ''build'')))"
proof -
  have h1: "optExpressions exampleOptions = None" by (simp add: exampleOptions_def)
  have h2: "WURK_WORKSPACE_EXPRESSIONS exampleEnv = []" by (simp add: exampleEnv_def)
  have h3: "\<not> arrayIncludes (runningCommands exampleEnv) (Some ''build'')"
    by (simp add: runningCommands_def exampleEnv_def arrayIncludes_def)
  have h4: "\<forall>entry \<in> set (workspaceEntries exampleWorld). snd entry" by (simp add: exampleWorld_def)
  obtain c where c: "selection (mainAsync exampleRule exampleWorld exampleEnv exampleOptions (Some ''build'')) = Some c"
    and ev: "Select [''**''] \<in> set (events (mainAsync exampleRule exampleWorld exampleEnv exampleOptions (Some ''build'')))"
    using mainAsync_selects_wildcard[OF h1 h2 h3 h4, of exampleRule] by blast
  have s: "selection (mainAsync exampleRule exampleWorld exampleEnv exampleOptions (Some ''build'')) =
      Some (select exampleRule [''**''] (newWorkspaceCollection (registry exampleWorld) (graph exampleWorld)
        False None forEachSequential))"
    using h3 by (simp add: mainAsync_def action_def Let_def exampleWorld_def construct_selection
        destructure_def optionActionConcurrency_def exampleOptions_def exampleEnv_def iterationMethodOf_def)
  have "c = select exampleRule [''**''] (newWorkspaceCollection (registry exampleWorld) (graph exampleWorld)
        False None forEachSequential)"
    using c s by simp
  then have "map isSelected (workspaces c) = [False, True, True]"
    by (simp add: select_def newWorkspaceCollection_def exampleWorld_def exampleRoot_def
        exampleA_def exampleB_def isMatchTarget_def matchesExpression_def exampleRule_def)
  then show ?thesis using c ev by (intro exI[of _ c]) simp
qed


text \<open>
  C10. If the name of the invoked command is among the pieces of
  \<^verbatim>\<open>WURK_RUNNING_COMMANDS\<close>, the action exits the process with code 0: nothing has
  happened before (no workspace collection, no selection, no plugin initialised, the
  environment as it was). Otherwise the name is appended to the variable. A command whose
  name is plain (no comma, no white space at either end) therefore cannot enter its action a
  second time: started again after any chain of nested invocations, it exits with code 0.
\<close>

theorem mainAsync_never_reenters:
  "(arrayIncludes (runningCommands e) (Some n) \<longrightarrow>
      mainAsync rule w e opts (Some n) =
        \<lparr>events = [], envAfter = e, selection = None, outcome = ProcessExit 0\<rparr>)
   \<and> (\<not> arrayIncludes (runningCommands e) (Some n) \<longrightarrow>
      WURK_RUNNING_COMMANDS (envAfter (mainAsync rule w e opts (Some n)))
        = Some (join (runningCommands e @ [n])))
   \<and> (plainName n \<longrightarrow>
      mainAsync rule w' (nested rule chain (envAfter (mainAsync rule w e opts (Some n)))) opts' (Some n) =
        \<lparr>events = [], envAfter = nested rule chain (envAfter (mainAsync rule w e opts (Some n))),
         selection = None, outcome = ProcessExit 0\<rparr>)"
proof (intro conjI impI)
  assume "arrayIncludes (runningCommands e) (Some n)"
  then show "mainAsync rule w e opts (Some n) =
        \<lparr>events = [], envAfter = e, selection = None, outcome = ProcessExit 0\<rparr>"
    by (simp add: mainAsync_def action_exits)
next
  assume "\<not> arrayIncludes (runningCommands e) (Some n)"
  then show "WURK_RUNNING_COMMANDS (envAfter (mainAsync rule w e opts (Some n)))
        = Some (join (runningCommands e @ [n]))"
    by (simp add: mainAsync_def action_running appendRunning_def)
next
  assume p: "plainName n"
  let ?e1 = "envAfter (mainAsync rule w e opts (Some n))"
  have "arrayIncludes (runningCommands ?e1) (Some n)"
    unfolding mainAsync_def using action_blocks_itself[OF p] by simp
  then have "arrayIncludes (runningCommands (nested rule chain ?e1)) (Some n)"
    using nested_keeps_blocked[OF p] by simp
  then show "mainAsync rule w' (nested rule chain ?e1) opts' (Some n) =
        \<lparr>events = [], envAfter = nested rule chain ?e1, selection = None, outcome = ProcessExit 0\<rparr>"
    by (simp add: mainAsync_def action_exits)
qed

theorem mainAsync_never_reenters_witness:
  "mainAsync exampleRule exampleWorld (exampleEnv\<lparr>WURK_RUNNING_COMMANDS := Some ''test, build''\<rparr>)
      exampleOptions (Some ''build'')
     = \<lparr>events = [], envAfter = exampleEnv\<lparr>WURK_RUNNING_COMMANDS := Some ''test, build''\<rparr>,
        selection = None, outcome = ProcessExit 0\<rparr>
   \<and> WURK_RUNNING_COMMANDS (envAfter (mainAsync exampleRule exampleWorld
        (exampleEnv\<lparr>WURK_RUNNING_COMMANDS := Some ''test''\<rparr>) exampleOptions (Some ''build'')))
     = Some ''test,build''
   \<and> outcome (mainAsync exampleRule exampleWorld
        (nested exampleRule [\<lparr>invWorld = exampleWorld, invOptions = exampleOptions, invCommand = Some ''publish''\<rparr>]
           (envAfter (mainAsync exampleRule exampleWorld exampleEnv exampleOptions (Some ''build''))))
        exampleOptions (Some ''build'')) = ProcessExit 0"
proof -
  let ?e1 = "exampleEnv\<lparr>WURK_RUNNING_COMMANDS := Some ''test, build''\<rparr>"
  let ?e2 = "exampleEnv\<lparr>WURK_RUNNING_COMMANDS := Some ''test''\<rparr>"
  have r1: "runningCommands ?e1 = [''test'', ''build'']"
    by (simp add: runningCommands_def split_def matchSeparator_def isSpace_def)
  have r2: "runningCommands ?e2 = [''test'']"
    by (simp add: runningCommands_def split_def matchSeparator_def isSpace_def)
  have p: "plainName ''build''" by (simp add: plainName_def isSpace_def)
  have a: "mainAsync exampleRule exampleWorld ?e1 exampleOptions (Some ''build'')
     = \<lparr>events = [], envAfter = ?e1, selection = None, outcome = ProcessExit 0\<rparr>"
    using mainAsync_never_reenters[of ?e1 "''build''" exampleRule exampleWorld exampleOptions]
    by (simp add: r1 arrayIncludes_def)
  have b: "WURK_RUNNING_COMMANDS (envAfter (mainAsync exampleRule exampleWorld ?e2 exampleOptions (Some ''build'')))
     = Some ''test,build''"
    using mainAsync_never_reenters[of ?e2 "''build''" exampleRule exampleWorld exampleOptions]
    by (simp add: r2 arrayIncludes_def)
  have c: "outcome (mainAsync exampleRule exampleWorld
        (nested exampleRule [\<lparr>invWorld = exampleWorld, invOptions = exampleOptions, invCommand = Some ''publish''\<rparr>]
           (envAfter (mainAsync exampleRule exampleWorld exampleEnv exampleOptions (Some ''build''))))
        exampleOptions (Some ''build'')) = ProcessExit 0"
    using mainAsync_never_reenters[of exampleEnv "''build''" exampleRule exampleWorld exampleOptions
        exampleWorld "[\<lparr>invWorld = exampleWorld, invOptions = exampleOptions, invCommand = Some ''publish''\<rparr>]"
        exampleOptions] p
    by simp
  show ?thesis using a b c by simp
qed

subsection \<open>Publishing from the file system\<close>

lemma validatePublished_no_status: "statusSets (fst (validatePublished k g dep p)) = []"
  by (simp add: validatePublished_def Let_def split: option.splits)

lemma validateDependency_no_status: "statusSets (fst (validateDependency k g l p)) = []"
  by (simp add: validateDependency_def validatePublished_no_status Let_def split: spec.splits)

lemma statusSets_append: "statusSets (xs @ ys) = statusSets xs @ statusSets ys"
  by (induction xs rule: statusSets.induct) auto

lemma validateDependencies_no_status: "statusSets (fst (validateDependencies k g ls p)) = []"
proof (induction ls)
  case Nil
  then show ?case by simp
next
  case (Cons l ls)
  obtain evs r where a: "validateDependency k g l p = (evs, r)" by (cases "validateDependency k g l p")
  obtain evs' r' where b: "validateDependencies k g ls p = (evs', r')" by (cases "validateDependencies k g ls p")
  have "statusSets evs = []" using validateDependency_no_status[of k g l p] a by simp
  moreover have "statusSets evs' = []" using Cons.IH b by simp
  ultimately show ?case using a b by (cases r) (simp_all add: statusSets_append)
qed

lemma validate_private:
  "isPrivate ws \<Longrightarrow> validate k g ws p =
     ([LogInfo ''workspace is private'', StatusSet skipped (Some ''private'')], Inr False)"
  by (simp add: validate_def)

lemma validate_unversioned:
  "\<not> isPrivate ws \<Longrightarrow> \<not> truthy (version ws) \<Longrightarrow> validate k g ws p =
     ([LogInfo ''workspace is unversioned'', StatusSet skipped (Some ''unversioned'')], Inr False)"
  by (simp add: validate_def)

lemma validate_published:
  "\<not> isPrivate ws \<Longrightarrow> truthy (version ws) \<Longrightarrow> getMetadata k (name ws) (the (version ws)) \<noteq> None \<Longrightarrow>
   validate k g ws p =
     ([LogInfo ''workspace is already published'', StatusSet skipped (Some ''already published'')], Inr False)"
  by (simp add: validate_def)

lemma statusSets_logs: "statusSets (map (\<lambda>x. LogError (f x)) xs) = []"
  by (induction xs) auto

lemma validate_goes_on:
  assumes "\<not> isPrivate ws" "truthy (version ws)" "getMetadata k (name ws) (the (version ws)) = None"
  shows "statusSets (fst (validate k g ws p)) = [] \<and> snd (validate k g ws p) \<noteq> Inr False"
proof -
  obtain evs r where d: "validateDependencies k g (dependencyLinks k) p = (evs, r)"
    by (cases "validateDependencies k g (dependencyLinks k) p")
  have "statusSets evs = []" using validateDependencies_no_status[of k g "dependencyLinks k" p] d by simp
  then show ?thesis using assms d
    by (cases r; cases "packedFiles k")
       (simp_all add: validate_def Let_def statusSets_append statusSets_logs)
qed


lemma publish_skipped:
  "validate k g ws p = (evs, Inr False) \<Longrightarrow>
   publishFromFilesystem k options g ws config disk p =
     \<lparr>trace = StatusSet pending None # evs, configAfter = config, diskAfter = disk,
      publishedAfter = p, thrown = None\<rparr>"
  by (simp add: publishFromFilesystem_def)

lemma publish_invalid:
  "validate k g ws p = (evs, Inl e) \<Longrightarrow>
   publishFromFilesystem k options g ws config disk p =
     \<lparr>trace = StatusSet pending None # evs, configAfter = config, diskAfter = disk,
      publishedAfter = p, thrown = Some e\<rparr>"
  by (simp add: publishFromFilesystem_def)

lemma publish_unreadable:
  "validate k g ws p = (evs, Inr True) \<Longrightarrow> \<not> truthy disk \<Longrightarrow>
   trace (publishFromFilesystem k options g ws config disk p) =
     StatusSet pending None # evs @
       [LogInfo (''publishing version '' @ the (version ws) @ '' from filesystem to ''
          @ (if toArchive options then ''archive'' else ''registry''))]
   \<and> diskAfter (publishFromFilesystem k options g ws config disk p) = disk
   \<and> publishedAfter (publishFromFilesystem k options g ws config disk p) = p
   \<and> thrown (publishFromFilesystem k options g ws config disk p) = Some AssertionFailed"
  by (simp add: publishFromFilesystem_def Let_def)

lemma publish_npm_failed:
  "validate k g ws p = (evs, Inr True) \<Longrightarrow> truthy disk \<Longrightarrow> npmFails k \<Longrightarrow>
   (\<exists>written. trace (publishFromFilesystem k options g ws config disk p) =
     StatusSet pending None # evs @
       [LogInfo (''publishing version '' @ the (version ws) @ '' from filesystem to ''
          @ (if toArchive options then ''archive'' else ''registry'')),
        WriteJson written, SpawnNpm (npmArguments options), WriteText (the disk)])
   \<and> diskAfter (publishFromFilesystem k options g ws config disk p) = disk
   \<and> publishedAfter (publishFromFilesystem k options g ws config disk p) = p
   \<and> thrown (publishFromFilesystem k options g ws config disk p) = Some NpmFailed"
  by (cases disk) (simp_all add: publishFromFilesystem_def Let_def truthy_def writeFile_def)

lemma publish_done:
  "validate k g ws p = (evs, Inr True) \<Longrightarrow> truthy disk \<Longrightarrow> \<not> npmFails k \<Longrightarrow>
   (\<exists>written. trace (publishFromFilesystem k options g ws config disk p) =
     StatusSet pending None # evs @
       [LogInfo (''publishing version '' @ the (version ws) @ '' from filesystem to ''
          @ (if toArchive options then ''archive'' else ''registry'')),
        WriteJson written, SpawnNpm (npmArguments options), WriteText (the disk),
        StatusSet success (Some ((if toArchive options then ''pack'' else ''publish'') @ '' '' @ the (version ws)))])
   \<and> diskAfter (publishFromFilesystem k options g ws config disk p) = disk
   \<and> publishedAfter (publishFromFilesystem k options g ws config disk p) = insert (name ws) p
   \<and> thrown (publishFromFilesystem k options g ws config disk p) = None"
  by (cases disk) (simp_all add: publishFromFilesystem_def Let_def truthy_def writeFile_def)


lemma validatePublished_no_write: "WriteJson t \<notin> set (fst (validatePublished k g dep p))"
  by (simp add: validatePublished_def Let_def split: option.splits)

lemma validateDependency_no_write: "WriteJson t \<notin> set (fst (validateDependency k g l p))"
  by (simp add: validateDependency_def validatePublished_no_write Let_def split: spec.splits)

lemma validateDependencies_no_write: "WriteJson t \<notin> set (fst (validateDependencies k g ls p))"
proof (induction ls)
  case Nil
  then show ?case by simp
next
  case (Cons l ls)
  obtain evs r where a: "validateDependency k g l p = (evs, r)" by (cases "validateDependency k g l p")
  obtain evs' r' where b: "validateDependencies k g ls p = (evs', r')" by (cases "validateDependencies k g ls p")
  have "WriteJson t \<notin> set evs" using validateDependency_no_write[of t k g l p] a by simp
  moreover have "WriteJson t \<notin> set evs'" using Cons.IH b by simp
  ultimately show ?case using a b by (cases r) simp_all
qed

lemma validate_no_write: "WriteJson t \<notin> set (fst (validate k g ws p))"
proof -
  obtain evs r where d: "validateDependencies k g (dependencyLinks k) p = (evs, r)"
    by (cases "validateDependencies k g (dependencyLinks k) p")
  have "WriteJson t \<notin> set evs" using validateDependencies_no_write[of t k g "dependencyLinks k" p] d by simp
  then show ?thesis using d
    by (cases r; cases "packedFiles k") (auto simp: validate_def Let_def)
qed

lemma validate_true:
  assumes "validate k g ws p = (evs, Inr True)"
  shows "\<not> isPrivate ws \<and> truthy (version ws) \<and> getMetadata k (name ws) (the (version ws)) = None
         \<and> statusSets evs = []"
proof -
  have a: "\<not> isPrivate ws" using assms validate_private[of ws k g p] by auto
  have b: "truthy (version ws)" using assms a validate_unversioned[of ws k g p] by auto
  have c: "getMetadata k (name ws) (the (version ws)) = None"
  proof (rule ccontr)
    assume "getMetadata k (name ws) (the (version ws)) \<noteq> None"
    then show False using assms validate_published[OF a b, of k g p] by simp
  qed
  show ?thesis using a b c validate_goes_on[OF a b c, of g p] assms by simp
qed

lemma validate_no_success: "(success, d) \<notin> set (statusSets (fst (validate k g ws p)))"
proof (cases "isPrivate ws")
  case True
  then show ?thesis by (simp add: validate_private)
next
  case np: False
  show ?thesis
  proof (cases "truthy (version ws)")
    case False
    then show ?thesis using np by (simp add: validate_unversioned)
  next
    case tv: True
    show ?thesis
    proof (cases "getMetadata k (name ws) (the (version ws)) = None")
      case True
      then show ?thesis using validate_goes_on[OF np tv True, of g p] by simp
    next
      case False
      then show ?thesis using np tv by (simp add: validate_published)
    qed
  qed
qed


lemma publish_trace_start:
  "\<exists>rest. trace (publishFromFilesystem k options g ws config disk p) = StatusSet pending None # rest"
proof -
  obtain evs v where v: "validate k g ws p = (evs, v)" by (cases "validate k g ws p")
  show ?thesis
  proof (cases v)
    case (Inl e)
    then show ?thesis using v by (simp add: publish_invalid)
  next
    case (Inr b)
    show ?thesis
    proof (cases b)
      case False
      then show ?thesis using v Inr by (simp add: publish_skipped)
    next
      case True
      then have vt: "validate k g ws p = (evs, Inr True)" using v Inr by simp
      show ?thesis
      proof (cases "truthy disk")
        case False
        then show ?thesis using publish_unreadable[OF vt False, of options config] by simp
      next
        case td: True
        show ?thesis
        proof (cases "npmFails k")
          case True
          obtain written where "trace (publishFromFilesystem k options g ws config disk p) =
             StatusSet pending None # evs @
               [LogInfo (''publishing version '' @ the (version ws) @ '' from filesystem to ''
                  @ (if toArchive options then ''archive'' else ''registry'')),
                WriteJson written, SpawnNpm (npmArguments options), WriteText (the disk)]"
            using publish_npm_failed[OF vt td True, of options config] by blast
          then show ?thesis by simp
        next
          case False
          obtain written where "trace (publishFromFilesystem k options g ws config disk p) =
             StatusSet pending None # evs @
               [LogInfo (''publishing version '' @ the (version ws) @ '' from filesystem to ''
                  @ (if toArchive options then ''archive'' else ''registry'')),
                WriteJson written, SpawnNpm (npmArguments options), WriteText (the disk),
                StatusSet success (Some ((if toArchive options then ''pack'' else ''publish'') @ '' '' @ the (version ws)))]"
            using publish_done[OF vt td False, of options config] by blast
          then show ?thesis by simp
        qed
      qed
    qed
  qed
qed


lemma publish_not_skipped:
  assumes h: "\<not> isPrivate ws" "truthy (version ws)" "getMetadata k (name ws) (the (version ws)) = None"
    and r: "r = publishFromFilesystem k options g ws config disk p"
  shows "(statusSets (trace r) = [(pending, None)] \<and> thrown r \<noteq> None \<and> publishedAfter r = p)
       \<or> (statusSets (trace r) =
           [(pending, None),
            (success, Some ((if toArchive options then ''pack'' else ''publish'') @ '' '' @ the (version ws)))]
         \<and> thrown r = None \<and> publishedAfter r = insert (name ws) p \<and> \<not> npmFails k)"
proof -
  obtain evs v where v: "validate k g ws p = (evs, v)" by (cases "validate k g ws p")
  have g: "statusSets evs = []" "v \<noteq> Inr False"
    using validate_goes_on[OF h, of g p] v by simp_all
  show ?thesis
  proof (cases v)
    case (Inl e)
    then show ?thesis using r v g by (simp add: publish_invalid)
  next
    case (Inr b)
    then have vt: "validate k g ws p = (evs, Inr True)" using v g by (cases b) auto
    show ?thesis
    proof (cases "truthy disk")
      case False
      have "statusSets (trace r) = [(pending, None)]"
        using r publish_unreadable[OF vt False, of options config] g by (simp add: statusSets_append)
      then show ?thesis using r publish_unreadable[OF vt False, of options config] by simp
    next
      case td: True
      show ?thesis
      proof (cases "npmFails k")
        case True
        obtain written where "trace r =
             StatusSet pending None # evs @
               [LogInfo (''publishing version '' @ the (version ws) @ '' from filesystem to ''
                  @ (if toArchive options then ''archive'' else ''registry'')),
                WriteJson written, SpawnNpm (npmArguments options), WriteText (the disk)]"
          using r publish_npm_failed[OF vt td True, of options config] by blast
        then have "statusSets (trace r) = [(pending, None)]"
          using g by (simp add: statusSets_append)
        then show ?thesis using r publish_npm_failed[OF vt td True, of options config] by simp
      next
        case False
        obtain written where "trace r =
             StatusSet pending None # evs @
               [LogInfo (''publishing version '' @ the (version ws) @ '' from filesystem to ''
                  @ (if toArchive options then ''archive'' else ''registry'')),
                WriteJson written, SpawnNpm (npmArguments options), WriteText (the disk),
                StatusSet success (Some ((if toArchive options then ''pack'' else ''publish'') @ '' '' @ the (version ws)))]"
          using r publish_done[OF vt td False, of options config] by blast
        then have "statusSets (trace r) = [(pending, None),
            (success, Some ((if toArchive options then ''pack'' else ''publish'') @ '' '' @ the (version ws)))]"
          using g by (simp add: statusSets_append)
        then show ?thesis using r False publish_done[OF vt td False, of options config] by simp
      qed
    qed
  qed
qed


lemma publish_reached:
  assumes w: "WriteJson t \<in> set (trace r)" and r: "r = publishFromFilesystem k options g ws config disk p"
  shows "\<exists>evs. validate k g ws p = (evs, Inr True) \<and> truthy disk"
proof -
  obtain evs v where v: "validate k g ws p = (evs, v)" by (cases "validate k g ws p")
  have nw: "WriteJson t \<notin> set evs" using validate_no_write[of t k g ws p] v by simp
  show ?thesis
  proof (cases v)
    case (Inl e)
    then show ?thesis using w r v nw by (simp add: publish_invalid)
  next
    case (Inr b)
    show ?thesis
    proof (cases b)
      case False
      then show ?thesis using w r v Inr nw by (simp add: publish_skipped)
    next
      case True
      then have vt: "validate k g ws p = (evs, Inr True)" using v Inr by simp
      show ?thesis
      proof (cases "truthy disk")
        case False
        then show ?thesis using w r nw publish_unreadable[OF vt False, of options config] by simp
      next
        case True
        then show ?thesis using vt by simp
      qed
    qed
  qed
qed

lemma publish_disk: "diskAfter (publishFromFilesystem k options g ws config disk p) = disk"
proof -
  obtain evs v where v: "validate k g ws p = (evs, v)" by (cases "validate k g ws p")
  show ?thesis
  proof (cases v)
    case (Inl e)
    then show ?thesis using v by (simp add: publish_invalid)
  next
    case (Inr b)
    show ?thesis
    proof (cases b)
      case False
      then show ?thesis using v Inr by (simp add: publish_skipped)
    next
      case True
      then have vt: "validate k g ws p = (evs, Inr True)" using v Inr by simp
      show ?thesis
      proof (cases "truthy disk")
        case False
        then show ?thesis using publish_unreadable[OF vt False, of options config] by simp
      next
        case td: True
        show ?thesis
          using publish_npm_failed[OF vt td, of options config] publish_done[OF vt td, of options config]
          by (cases "npmFails k") simp_all
      qed
    qed
  qed
qed

lemma publish_npm_fails:
  assumes f: "npmFails k" and r: "r = publishFromFilesystem k options g ws config disk p"
  shows "publishedAfter r = p \<and> (\<forall>d. (success, d) \<notin> set (statusSets (trace r)))"
proof -
  obtain evs v where v: "validate k g ws p = (evs, v)" by (cases "validate k g ws p")
  have ns: "\<And>d. (success, d) \<notin> set (statusSets evs)" using validate_no_success[of _ k g ws p] v by simp
  show ?thesis
  proof (cases v)
    case (Inl e)
    then show ?thesis using r v ns by (simp add: publish_invalid)
  next
    case (Inr b)
    show ?thesis
    proof (cases b)
      case False
      then show ?thesis using r v Inr ns by (simp add: publish_skipped)
    next
      case True
      then have vt: "validate k g ws p = (evs, Inr True)" using v Inr by simp
      show ?thesis
      proof (cases "truthy disk")
        case False
        then show ?thesis using r ns publish_unreadable[OF vt False, of options config]
          by (simp add: statusSets_append)
      next
        case td: True
        obtain written where "trace r =
             StatusSet pending None # evs @
               [LogInfo (''publishing version '' @ the (version ws) @ '' from filesystem to ''
                  @ (if toArchive options then ''archive'' else ''registry'')),
                WriteJson written, SpawnNpm (npmArguments options), WriteText (the disk)]"
          using r publish_npm_failed[OF vt td f, of options config] by blast
        then have "\<forall>d. (success, d) \<notin> set (statusSets (trace r))"
          using ns by (simp add: statusSets_append)
        then show ?thesis using r publish_npm_failed[OF vt td f, of options config] by simp
      qed
    qed
  qed
qed

lemma publish_private:
  "isPrivate ws \<Longrightarrow> r = publishFromFilesystem k options g ws config disk p \<Longrightarrow>
   trace r = [StatusSet pending None, LogInfo ''workspace is private'', StatusSet skipped (Some ''private'')]
   \<and> thrown r = None \<and> publishedAfter r = p"
  by (simp add: validate_private publish_skipped)

lemma publish_unversioned:
  "\<not> isPrivate ws \<Longrightarrow> \<not> truthy (version ws) \<Longrightarrow> r = publishFromFilesystem k options g ws config disk p \<Longrightarrow>
   trace r = [StatusSet pending None, LogInfo ''workspace is unversioned'',
              StatusSet skipped (Some ''unversioned'')]
   \<and> thrown r = None \<and> publishedAfter r = p"
  by (simp add: validate_unversioned publish_skipped)

lemma publish_already:
  "\<not> isPrivate ws \<Longrightarrow> truthy (version ws) \<Longrightarrow> getMetadata k (name ws) (the (version ws)) \<noteq> None \<Longrightarrow>
   r = publishFromFilesystem k options g ws config disk p \<Longrightarrow>
   trace r = [StatusSet pending None, LogInfo ''workspace is already published'',
              StatusSet skipped (Some ''already published'')]
   \<and> thrown r = None \<and> publishedAfter r = p"
  by (simp add: validate_published publish_skipped)





lemma exampleB_validate:
  "validate exampleCollaborators None exampleB {} =
     ([SpawnNpm [''pack'', ''--dry-run'', ''--json''], QueryRegistry ''pkg-a'' ''1.0.0''], Inr True)"
  by (simp add: validate_def validateDependency_def validatePublished_def exampleCollaborators_def
      exampleB_def exampleA_def truthy_def Let_def)

text \<open>
  C7. \<^verbatim>\<open>publishFromFilesystem\<close> first sets the status to \<open>pending\<close>. It then sets it
  to \<open>skipped\<close>, without running \<^verbatim>\<open>npm\<close> and without recording the workspace as
  published, in three cases, tested in this order: the workspace is private (detail
  \<^verbatim>\<open>private\<close>), it has no version, the version being absent or empty (detail
  \<^verbatim>\<open>unversioned\<close>), the registry has metadata for its name and version (detail
  \<^verbatim>\<open>already published\<close>). The status is set to \<open>skipped\<close> in no other case. When
  none of the three holds and the function returns without an error, the status has been set
  to \<open>success\<close> and the workspace is recorded as published.
\<close>

theorem publishFromFilesystem_status:
  assumes "r = publishFromFilesystem k options g ws config disk p"
  shows "(\<exists>rest. trace r = StatusSet pending None # rest)
    \<and> (isPrivate ws \<longrightarrow>
         trace r = [StatusSet pending None, LogInfo ''workspace is private'',
                    StatusSet skipped (Some ''private'')]
         \<and> thrown r = None \<and> publishedAfter r = p)
    \<and> (\<not> isPrivate ws \<and> \<not> truthy (version ws) \<longrightarrow>
         trace r = [StatusSet pending None, LogInfo ''workspace is unversioned'',
                    StatusSet skipped (Some ''unversioned'')]
         \<and> thrown r = None \<and> publishedAfter r = p)
    \<and> (\<not> isPrivate ws \<and> truthy (version ws) \<and> getMetadata k (name ws) (the (version ws)) \<noteq> None \<longrightarrow>
         trace r = [StatusSet pending None, LogInfo ''workspace is already published'',
                    StatusSet skipped (Some ''already published'')]
         \<and> thrown r = None \<and> publishedAfter r = p)
    \<and> (\<forall>d. (skipped, d) \<in> set (statusSets (trace r)) \<longrightarrow>
         (isPrivate ws \<and> d = Some ''private'')
         \<or> (\<not> isPrivate ws \<and> \<not> truthy (version ws) \<and> d = Some ''unversioned'')
         \<or> (\<not> isPrivate ws \<and> truthy (version ws) \<and> getMetadata k (name ws) (the (version ws)) \<noteq> None
              \<and> d = Some ''already published''))
    \<and> (\<not> isPrivate ws \<and> truthy (version ws) \<and> getMetadata k (name ws) (the (version ws)) = None
         \<and> thrown r = None \<longrightarrow>
         statusSets (trace r) =
           [(pending, None),
            (success, Some ((if toArchive options then ''pack'' else ''publish'') @ '' '' @ the (version ws)))]
         \<and> publishedAfter r = insert (name ws) p)"
proof (intro conjI)
  show "\<exists>rest. trace r = StatusSet pending None # rest"
    unfolding assms by (rule publish_trace_start)
  show "isPrivate ws \<longrightarrow>
         trace r = [StatusSet pending None, LogInfo ''workspace is private'',
                    StatusSet skipped (Some ''private'')]
         \<and> thrown r = None \<and> publishedAfter r = p"
    using publish_private[OF _ assms] by (intro impI)
  show "\<not> isPrivate ws \<and> \<not> truthy (version ws) \<longrightarrow>
         trace r = [StatusSet pending None, LogInfo ''workspace is unversioned'',
                    StatusSet skipped (Some ''unversioned'')]
         \<and> thrown r = None \<and> publishedAfter r = p"
    using publish_unversioned[OF _ _ assms] by (intro impI) (elim conjE)
  show "\<not> isPrivate ws \<and> truthy (version ws) \<and> getMetadata k (name ws) (the (version ws)) \<noteq> None \<longrightarrow>
         trace r = [StatusSet pending None, LogInfo ''workspace is already published'',
                    StatusSet skipped (Some ''already published'')]
         \<and> thrown r = None \<and> publishedAfter r = p"
    using publish_already[OF _ _ _ assms] by (intro impI) (elim conjE)
  show "\<forall>d. (skipped, d) \<in> set (statusSets (trace r)) \<longrightarrow>
         (isPrivate ws \<and> d = Some ''private'')
         \<or> (\<not> isPrivate ws \<and> \<not> truthy (version ws) \<and> d = Some ''unversioned'')
         \<or> (\<not> isPrivate ws \<and> truthy (version ws) \<and> getMetadata k (name ws) (the (version ws)) \<noteq> None
              \<and> d = Some ''already published'')"
  proof (intro allI impI)
    fix d assume sk: "(skipped, d) \<in> set (statusSets (trace r))"
    show "(isPrivate ws \<and> d = Some ''private'')
         \<or> (\<not> isPrivate ws \<and> \<not> truthy (version ws) \<and> d = Some ''unversioned'')
         \<or> (\<not> isPrivate ws \<and> truthy (version ws) \<and> getMetadata k (name ws) (the (version ws)) \<noteq> None
              \<and> d = Some ''already published'')"
    proof (cases "isPrivate ws")
      case True
      have "statusSets (trace r) = [(pending, None), (skipped, Some ''private'')]"
        using publish_private[OF True assms] by simp
      then show ?thesis using True sk by simp
    next
      case np: False
      show ?thesis
      proof (cases "truthy (version ws)")
        case False
        have "statusSets (trace r) = [(pending, None), (skipped, Some ''unversioned'')]"
          using publish_unversioned[OF np False assms] by simp
        then show ?thesis using np False sk by simp
      next
        case tv: True
        show ?thesis
        proof (cases "getMetadata k (name ws) (the (version ws)) = None")
          case True
          have "(skipped, d) \<notin> set (statusSets (trace r))"
            using publish_not_skipped[OF np tv True assms] by (elim disjE) simp_all
          then show ?thesis using sk by simp
        next
          case False
          have "statusSets (trace r) = [(pending, None), (skipped, Some ''already published'')]"
            using publish_already[OF np tv False assms] by simp
          then show ?thesis using np tv False sk by simp
        qed
      qed
    qed
  qed
  show "\<not> isPrivate ws \<and> truthy (version ws) \<and> getMetadata k (name ws) (the (version ws)) = None
         \<and> thrown r = None \<longrightarrow>
         statusSets (trace r) =
           [(pending, None),
            (success, Some ((if toArchive options then ''pack'' else ''publish'') @ '' '' @ the (version ws)))]
         \<and> publishedAfter r = insert (name ws) p"
  proof (intro impI)
    assume h: "\<not> isPrivate ws \<and> truthy (version ws) \<and> getMetadata k (name ws) (the (version ws)) = None
         \<and> thrown r = None"
    then have a: "\<not> isPrivate ws" and b: "truthy (version ws)"
      and c: "getMetadata k (name ws) (the (version ws)) = None" and t: "thrown r = None"
      by simp_all
    from publish_not_skipped[OF a b c assms] t show "statusSets (trace r) =
           [(pending, None),
            (success, Some ((if toArchive options then ''pack'' else ''publish'') @ '' '' @ the (version ws)))]
         \<and> publishedAfter r = insert (name ws) p"
      by (elim disjE) simp_all
  qed
qed

theorem publishFromFilesystem_status_witness:
  "trace (publishFromFilesystem exampleCollaborators examplePubOptions None exampleRoot [] (Some ''{ }'') {})
     = [StatusSet pending None, LogInfo ''workspace is private'', StatusSet skipped (Some ''private'')]
   \<and> trace (publishFromFilesystem exampleCollaborators examplePubOptions None (exampleB\<lparr>version := None\<rparr>) []
        (Some ''{ }'') {})
     = [StatusSet pending None, LogInfo ''workspace is unversioned'', StatusSet skipped (Some ''unversioned'')]
   \<and> trace (publishFromFilesystem exampleCollaborators examplePubOptions None exampleA [] (Some ''{ }'') {})
     = [StatusSet pending None, LogInfo ''workspace is already published'',
        StatusSet skipped (Some ''already published'')]
   \<and> statusSets (trace (publishFromFilesystem exampleCollaborators examplePubOptions None exampleB []
        (Some ''{ }'') {}))
     = [(pending, None), (success, Some ''publish 1.2.0'')]"
proof -
  have p: "isPrivate exampleRoot" by (simp add: exampleRoot_def)
  have a: "trace (publishFromFilesystem exampleCollaborators examplePubOptions None exampleRoot [] (Some ''{ }'') {})
     = [StatusSet pending None, LogInfo ''workspace is private'', StatusSet skipped (Some ''private'')]"
    using publishFromFilesystem_status[OF refl, of exampleCollaborators examplePubOptions None exampleRoot
        "[]" "Some ''{ }''" "{}"] p
    by blast
  have u: "\<not> isPrivate (exampleB\<lparr>version := None\<rparr>) \<and> \<not> truthy (version (exampleB\<lparr>version := None\<rparr>))"
    by (simp add: exampleB_def truthy_def)
  have b: "trace (publishFromFilesystem exampleCollaborators examplePubOptions None (exampleB\<lparr>version := None\<rparr>) []
        (Some ''{ }'') {})
     = [StatusSet pending None, LogInfo ''workspace is unversioned'', StatusSet skipped (Some ''unversioned'')]"
    using publishFromFilesystem_status[OF refl, of exampleCollaborators examplePubOptions None
        "exampleB\<lparr>version := None\<rparr>" "[]" "Some ''{ }''" "{}"] u
    by blast
  have m: "\<not> isPrivate exampleA \<and> truthy (version exampleA)
      \<and> getMetadata exampleCollaborators (name exampleA) (the (version exampleA)) \<noteq> None"
    by (simp add: exampleA_def exampleCollaborators_def truthy_def)
  have c: "trace (publishFromFilesystem exampleCollaborators examplePubOptions None exampleA [] (Some ''{ }'') {})
     = [StatusSet pending None, LogInfo ''workspace is already published'',
        StatusSet skipped (Some ''already published'')]"
    using publishFromFilesystem_status[OF refl, of exampleCollaborators examplePubOptions None exampleA
        "[]" "Some ''{ }''" "{}"] m
    by blast
  have nf: "\<not> npmFails exampleCollaborators" by (simp add: exampleCollaborators_def)
  have td: "truthy (Some ''{ }'')" by (simp add: truthy_def)
  have t: "thrown (publishFromFilesystem exampleCollaborators examplePubOptions None exampleB []
        (Some ''{ }'') {}) = None"
    using publish_done[OF exampleB_validate td nf, of examplePubOptions "[]"] by blast
  have h: "\<not> isPrivate exampleB \<and> truthy (version exampleB)
      \<and> getMetadata exampleCollaborators (name exampleB) (the (version exampleB)) = None"
    by (simp add: exampleB_def exampleCollaborators_def truthy_def)
  have "statusSets (trace (publishFromFilesystem exampleCollaborators examplePubOptions None exampleB []
        (Some ''{ }'') {}))
     = [(pending, None),
        (success, Some ((if toArchive examplePubOptions then ''pack'' else ''publish'') @ '' '' @ the (version exampleB)))]"
    using publishFromFilesystem_status[OF refl, of exampleCollaborators examplePubOptions None exampleB
        "[]" "Some ''{ }''" "{}"] h t
    by blast
  then have d: "statusSets (trace (publishFromFilesystem exampleCollaborators examplePubOptions None exampleB []
        (Some ''{ }'') {}))
     = [(pending, None), (success, Some ''publish 1.2.0'')]"
    by (simp add: examplePubOptions_def exampleB_def)
  show ?thesis using a b c d by (intro conjI)
qed

text \<open>
  C9. After \<^verbatim>\<open>publishFromFilesystem\<close> the \<^verbatim>\<open>package.json\<close> on disk holds the text
  it held before, on every path. Whenever the changed manifest is written, the
  \<^verbatim>\<open>npm\<close> process runs next and the saved text is written back right after it, whether
  the process fails or not. When it fails, the error is thrown, the workspace is not added to
  the published set and the status is never set to \<open>success\<close>; both happen when it
  succeeds.
\<close>

theorem publishFromFilesystem_restores:
  assumes "r = publishFromFilesystem k options g ws config disk p"
  shows "diskAfter r = disk
    \<and> (\<forall>t. WriteJson t \<in> set (trace r) \<longrightarrow>
          truthy disk
          \<and> (\<exists>pre post. trace r =
                pre @ [WriteJson t, SpawnNpm (npmArguments options), WriteText (the disk)] @ post)
          \<and> (npmFails k \<longrightarrow> thrown r = Some NpmFailed)
          \<and> (\<not> npmFails k \<longrightarrow> thrown r = None \<and> publishedAfter r = insert (name ws) p
                \<and> (\<exists>d. last (trace r) = StatusSet success d)))
    \<and> (npmFails k \<longrightarrow> publishedAfter r = p \<and> (\<forall>d. (success, d) \<notin> set (statusSets (trace r))))"
proof (intro conjI)
  show "diskAfter r = disk" unfolding assms by (rule publish_disk)
  show "npmFails k \<longrightarrow> publishedAfter r = p \<and> (\<forall>d. (success, d) \<notin> set (statusSets (trace r)))"
    using publish_npm_fails[OF _ assms] by (intro impI)
  show "\<forall>t. WriteJson t \<in> set (trace r) \<longrightarrow>
          truthy disk
          \<and> (\<exists>pre post. trace r =
                pre @ [WriteJson t, SpawnNpm (npmArguments options), WriteText (the disk)] @ post)
          \<and> (npmFails k \<longrightarrow> thrown r = Some NpmFailed)
          \<and> (\<not> npmFails k \<longrightarrow> thrown r = None \<and> publishedAfter r = insert (name ws) p
                \<and> (\<exists>d. last (trace r) = StatusSet success d))"
  proof (intro allI impI)
    fix t assume w: "WriteJson t \<in> set (trace r)"
    obtain evs where vt: "validate k g ws p = (evs, Inr True)" and td: "truthy disk"
      using publish_reached[OF w assms] by blast
    have nw: "WriteJson t \<notin> set evs" using validate_no_write[of t k g ws p] vt by simp
    let ?info = "LogInfo (''publishing version '' @ the (version ws) @ '' from filesystem to ''
                  @ (if toArchive options then ''archive'' else ''registry''))"
    let ?ok = "StatusSet success (Some ((if toArchive options then ''pack'' else ''publish'') @ '' '' @ the (version ws)))"
    show "truthy disk
          \<and> (\<exists>pre post. trace r =
                pre @ [WriteJson t, SpawnNpm (npmArguments options), WriteText (the disk)] @ post)
          \<and> (npmFails k \<longrightarrow> thrown r = Some NpmFailed)
          \<and> (\<not> npmFails k \<longrightarrow> thrown r = None \<and> publishedAfter r = insert (name ws) p
                \<and> (\<exists>d. last (trace r) = StatusSet success d))"
    proof (cases "npmFails k")
      case True
      obtain written where tr: "trace r = StatusSet pending None # evs @
               [?info, WriteJson written, SpawnNpm (npmArguments options), WriteText (the disk)]"
        using assms publish_npm_failed[OF vt td True, of options config] by blast
      have "written = t" using w nw tr by auto
      then have "trace r = (StatusSet pending None # evs @ [?info])
                   @ [WriteJson t, SpawnNpm (npmArguments options), WriteText (the disk)] @ []"
        using tr by simp
      then have "\<exists>pre post. trace r =
                pre @ [WriteJson t, SpawnNpm (npmArguments options), WriteText (the disk)] @ post"
        by blast
      then show ?thesis using td True assms publish_npm_failed[OF vt td True, of options config] by simp
    next
      case False
      obtain written where tr: "trace r = StatusSet pending None # evs @
               [?info, WriteJson written, SpawnNpm (npmArguments options), WriteText (the disk), ?ok]"
        using assms publish_done[OF vt td False, of options config] by blast
      have "written = t" using w nw tr by auto
      then have "trace r = (StatusSet pending None # evs @ [?info])
                   @ [WriteJson t, SpawnNpm (npmArguments options), WriteText (the disk)] @ [?ok]"
        using tr by simp
      then have ex: "\<exists>pre post. trace r =
                pre @ [WriteJson t, SpawnNpm (npmArguments options), WriteText (the disk)] @ post"
        by blast
      have "last (trace r) = ?ok" using tr by simp
      then have "\<exists>d. last (trace r) = StatusSet success d" by blast
      then show ?thesis using td False ex assms publish_done[OF vt td False, of options config] by simp
    qed
  qed
qed

theorem publishFromFilesystem_restores_witness:
  "diskAfter (publishFromFilesystem (exampleCollaborators\<lparr>npmFails := True, npmLeaves := (\<lambda>found. ''{'')\<rparr>)
       examplePubOptions None exampleB [] (Some ''{ }'') {}) = Some ''{ }''
   \<and> thrown (publishFromFilesystem (exampleCollaborators\<lparr>npmFails := True, npmLeaves := (\<lambda>found. ''{'')\<rparr>)
       examplePubOptions None exampleB [] (Some ''{ }'') {}) = Some NpmFailed
   \<and> publishedAfter (publishFromFilesystem (exampleCollaborators\<lparr>npmFails := True, npmLeaves := (\<lambda>found. ''{'')\<rparr>)
       examplePubOptions None exampleB [] (Some ''{ }'') {}) = {}
   \<and> publishedAfter (publishFromFilesystem exampleCollaborators
       examplePubOptions None exampleB [] (Some ''{ }'') {}) = {''pkg-b''}"
proof -
  let ?k = "exampleCollaborators\<lparr>npmFails := True, npmLeaves := (\<lambda>found. ''{'')\<rparr>"
  let ?r = "publishFromFilesystem ?k examplePubOptions None exampleB [] (Some ''{ }'') {}"
  let ?s = "publishFromFilesystem exampleCollaborators examplePubOptions None exampleB [] (Some ''{ }'') {}"
  have v: "validate ?k None exampleB {} =
      ([SpawnNpm [''pack'', ''--dry-run'', ''--json''], QueryRegistry ''pkg-a'' ''1.0.0''], Inr True)"
    by (simp add: validate_def validateDependency_def validatePublished_def exampleCollaborators_def
      exampleB_def exampleA_def truthy_def Let_def)
  have f: "npmFails ?k" by simp
  have nf: "\<not> npmFails exampleCollaborators" by (simp add: exampleCollaborators_def)
  have td: "truthy (Some ''{ }'')" by (simp add: truthy_def)
  obtain t where w: "WriteJson t \<in> set (trace ?r)"
    using publish_npm_failed[OF v td f, of examplePubOptions "[]"] by auto
  obtain t' where w': "WriteJson t' \<in> set (trace ?s)"
    using publish_done[OF exampleB_validate td nf, of examplePubOptions "[]"] by auto
  have a: "diskAfter ?r = Some ''{ }'' \<and> thrown ?r = Some NpmFailed \<and> publishedAfter ?r = {}"
    using publishFromFilesystem_restores[OF refl, of ?k examplePubOptions None exampleB "[]" "Some ''{ }''" "{}"]
      w f by blast
  have "publishedAfter ?s = insert (name exampleB) {}"
    using publishFromFilesystem_restores[OF refl, of exampleCollaborators examplePubOptions None exampleB "[]"
        "Some ''{ }''" "{}"] w' nf
    by blast
  then have b: "publishedAfter ?s = {''pkg-b''}" by (simp add: exampleB_def)
  show ?thesis using a b by (intro conjI) simp_all
qed

subsection \<open>The dependency check command\<close>

lemma setStatus_fields [simp]:
  "npmUpdatePromise (setStatus n st d s) = npmUpdatePromise s"
  "isFailed (setStatus n st d s) = isFailed s"
  "exitCode (setStatus n st d s) = exitCode s"
  "processes (setStatus n st d s) = processes s"
  "logged (setStatus n st d s) = logged s"
  "statusOf (setStatus n st d s) m = (if m = n then Some (st, d) else statusOf s m)"
  by (simp_all add: setStatus_def)

lemma logInfo_fields [simp]:
  "npmUpdatePromise (logInfo m s) = npmUpdatePromise s"
  "isFailed (logInfo m s) = isFailed s"
  "exitCode (logInfo m s) = exitCode s"
  "processes (logInfo m s) = processes s"
  "statusOf (logInfo m s) = statusOf s"
  by (simp_all add: logInfo_def)

lemma logError_fields [simp]:
  "npmUpdatePromise (logError m s) = npmUpdatePromise s"
  "isFailed (logError m s) = isFailed s"
  "exitCode (logError m s) = exitCode s"
  "processes (logError m s) = processes s"
  "statusOf (logError m s) = statusOf s"
  by (simp_all add: logError_def)

lemma fold_logError_fields [simp]:
  "npmUpdatePromise (fold (\<lambda>d. logError (f d)) xs s) = npmUpdatePromise s"
  "isFailed (fold (\<lambda>d. logError (f d)) xs s) = isFailed s"
  "exitCode (fold (\<lambda>d. logError (f d)) xs s) = exitCode s"
  "processes (fold (\<lambda>d. logError (f d)) xs s) = processes s"
  "statusOf (fold (\<lambda>d. logError (f d)) xs s) = statusOf s"
  by (induction xs arbitrary: s) simp_all

lemma chainRemoval_effect:
  "processes (chainRemoval c deps s) = processes s @
     [\<lparr>spawnedFor = name (eachWorkspace c), arguments = removeArguments (eachWorkspace c) deps,
       startedAt = max (settledAt (npmUpdatePromise s)) (now c),
       endedAt = max (settledAt (npmUpdatePromise s)) (now c) + duration (npmRemove c)\<rparr>]"
  "npmUpdatePromise (chainRemoval c deps s) =
     \<lparr>settledAt = max (settledAt (npmUpdatePromise s)) (now c) + duration (npmRemove c),
      rejected = spawnRejects (npmRemove c)\<rparr>"
  "isFailed (chainRemoval c deps s) = isFailed s"
  "statusOf (chainRemoval c deps s) = statusOf s"
  by (simp_all add: chainRemoval_def promiseCatch_def Let_def split: option.splits)

lemma each_not_selected: "\<not> isSelected (eachWorkspace c) \<Longrightarrow> each ds c s = (s, None)"
  by (simp add: each_def)


lemma each_unused_fix:
  assumes "isSelected (eachWorkspace c)" "unused ds c = Inr deps" "deps \<noteq> []" "fixOption c"
  shows "processes (fst (each ds c s)) = processes s @
     [\<lparr>spawnedFor = name (eachWorkspace c), arguments = removeArguments (eachWorkspace c) deps,
       startedAt = max (settledAt (npmUpdatePromise s)) (now c),
       endedAt = max (settledAt (npmUpdatePromise s)) (now c) + duration (npmRemove c)\<rparr>]
   \<and> npmUpdatePromise (fst (each ds c s)) =
     \<lparr>settledAt = max (settledAt (npmUpdatePromise s)) (now c) + duration (npmRemove c),
      rejected = spawnRejects (npmRemove c)\<rparr>
   \<and> snd (each ds c s) = (if spawnRejects (npmRemove c) then Some SpawnRejected else None)"
  using assms by (auto simp: each_def unused_def Let_def chainRemoval_effect split: if_splits)


lemma each_processes:
  "(processes (fst (each ds c s)) = processes s \<and> npmUpdatePromise (fst (each ds c s)) = npmUpdatePromise s)
   \<or> (\<exists>deps. processes (fst (each ds c s)) = processes s @
         [\<lparr>spawnedFor = name (eachWorkspace c), arguments = removeArguments (eachWorkspace c) deps,
           startedAt = max (settledAt (npmUpdatePromise s)) (now c),
           endedAt = max (settledAt (npmUpdatePromise s)) (now c) + duration (npmRemove c)\<rparr>]
       \<and> settledAt (npmUpdatePromise (fst (each ds c s)))
           = max (settledAt (npmUpdatePromise s)) (now c) + duration (npmRemove c))"
  by (auto simp: each_def Let_def chainRemoval_effect split: sum.splits if_splits)




lemma commandEach_fields:
  "processes (commandEach ds c s) = processes (fst (each ds c s))"
  "npmUpdatePromise (commandEach ds c s) = npmUpdatePromise (fst (each ds c s))"
  "isFailed (commandEach ds c s) = isFailed (fst (each ds c s))"
  "statusOf (commandEach ds c s) = statusOf (fst (each ds c s))"
  by (simp_all add: commandEach_def split: prod.splits option.splits)


lemma returnsQuietly_iff:
  "\<not> fixOption c \<Longrightarrow> returnsQuietly ds c = (snd (each ds c s) = None)"
  by (auto simp: returnsQuietly_def each_def unused_def Let_def split: sum.splits if_splits)









lemma oneAtATime_snoc:
  "oneAtATime xs \<Longrightarrow> (xs \<noteq> [] \<longrightarrow> endedAt (last xs) \<le> startedAt y) \<Longrightarrow> startedAt y \<le> endedAt y \<Longrightarrow>
   oneAtATime (xs @ [y])"
  by (induction xs rule: oneAtATime.induct) auto

lemma each_settledBy: "settledBy s \<Longrightarrow> settledBy (fst (each ds c s))"
proof -
  assume a: "settledBy s"
  from each_processes[of ds c s] show ?thesis
  proof (elim disjE exE conjE)
    assume "processes (fst (each ds c s)) = processes s"
       "npmUpdatePromise (fst (each ds c s)) = npmUpdatePromise s"
    then show ?thesis using a by (simp add: settledBy_def)
  next
    fix deps
    let ?y = "\<lparr>spawnedFor = name (eachWorkspace c), arguments = removeArguments (eachWorkspace c) deps,
           startedAt = max (settledAt (npmUpdatePromise s)) (now c),
           endedAt = max (settledAt (npmUpdatePromise s)) (now c) + duration (npmRemove c)\<rparr>"
    assume p: "processes (fst (each ds c s)) = processes s @ [?y]"
      and q: "settledAt (npmUpdatePromise (fst (each ds c s)))
           = max (settledAt (npmUpdatePromise s)) (now c) + duration (npmRemove c)"
    have "oneAtATime (processes s @ [?y])"
      using a by (intro oneAtATime_snoc) (auto simp: settledBy_def)
    then show ?thesis using p q by (simp add: settledBy_def)
  qed
qed

lemma fold_settledBy: "settledBy s \<Longrightarrow> settledBy (fold (commandEach ds) cs s)"
proof (induction cs arbitrary: s)
  case Nil
  then show ?case by simp
next
  case (Cons c cs)
  have "settledBy (commandEach ds c s)"
    using each_settledBy[OF Cons.prems, of ds c] by (simp add: settledBy_def commandEach_fields)
  then show ?case using Cons.IH by simp
qed




lemma exampleCheckC_unused: "unused exampleDependencySet exampleCheckC = Inl (ReadFileFailed ''src/c.ts'')"
  by (simp add: unused_def exampleDependencySet_def exampleCheckC_def exampleB_def mergeKeys_def
      isReactFile_def endsWith_def Let_def)




text \<open>
  C6. Under \<^verbatim>\<open>--fix\<close> the \<^verbatim>\<open>npm remove\<close> processes of a run, started from the
  initial module state, run one at a time: each starts when the process before it has ended
  or later. A call that has names to remove waits for the shared promise it extends, whether
  that promise is fulfilled or rejected: its own process is run once the earlier one has
  settled, the shared promise becomes the promise of that process, and the call throws only
  if its own process is rejected.
\<close>

theorem npm_remove_one_at_a_time:
  "oneAtATime (processes (fold (commandEach ds) cs initialState))
   \<and> (isSelected (eachWorkspace c) \<and> fixOption c \<and> unused ds c = Inr deps \<and> deps \<noteq> [] \<longrightarrow>
        processes (fst (each ds c s)) = processes s @
          [\<lparr>spawnedFor = name (eachWorkspace c), arguments = removeArguments (eachWorkspace c) deps,
            startedAt = max (settledAt (npmUpdatePromise s)) (now c),
            endedAt = max (settledAt (npmUpdatePromise s)) (now c) + duration (npmRemove c)\<rparr>]
        \<and> npmUpdatePromise (fst (each ds c s)) =
          \<lparr>settledAt = max (settledAt (npmUpdatePromise s)) (now c) + duration (npmRemove c),
           rejected = spawnRejects (npmRemove c)\<rparr>
        \<and> snd (each ds c s) = (if spawnRejects (npmRemove c) then Some SpawnRejected else None))"
proof (rule conjI, goal_cases)
  case 1
  have "settledBy initialState" by (simp add: settledBy_def initialState_def)
  then show ?case
    using fold_settledBy[of initialState ds cs] by (simp add: settledBy_def)
next
  case 2
  show ?case
  proof (rule impI)
  assume "isSelected (eachWorkspace c) \<and> fixOption c \<and> unused ds c = Inr deps \<and> deps \<noteq> []"
  then have h: "isSelected (eachWorkspace c)" "unused ds c = Inr deps" "deps \<noteq> []" "fixOption c"
    by simp_all
  show "processes (fst (each ds c s)) = processes s @
          [\<lparr>spawnedFor = name (eachWorkspace c), arguments = removeArguments (eachWorkspace c) deps,
            startedAt = max (settledAt (npmUpdatePromise s)) (now c),
            endedAt = max (settledAt (npmUpdatePromise s)) (now c) + duration (npmRemove c)\<rparr>]
        \<and> npmUpdatePromise (fst (each ds c s)) =
          \<lparr>settledAt = max (settledAt (npmUpdatePromise s)) (now c) + duration (npmRemove c),
           rejected = spawnRejects (npmRemove c)\<rparr>
        \<and> snd (each ds c s) = (if spawnRejects (npmRemove c) then Some SpawnRejected else None)"
    by (rule each_unused_fix[OF h])
  qed
qed

theorem npm_remove_one_at_a_time_witness:
  "oneAtATime (processes (fold (commandEach exampleDependencySet)
       [exampleCheckA\<lparr>fixOption := True\<rparr>, exampleCheckB\<lparr>fixOption := True\<rparr>] initialState))
   \<and> processes (fst (each exampleDependencySet (exampleCheckB\<lparr>fixOption := True\<rparr>)
        (initialState\<lparr>npmUpdatePromise := \<lparr>settledAt = 8, rejected = True\<rparr>\<rparr>)))
      = [\<lparr>spawnedFor = ''pkg-b'', arguments = [''-w'', ''pkg-b'', ''remove'', ''left-pad''],
          startedAt = 8, endedAt = 10\<rparr>]
   \<and> snd (each exampleDependencySet (exampleCheckB\<lparr>fixOption := True\<rparr>)
        (initialState\<lparr>npmUpdatePromise := \<lparr>settledAt = 8, rejected = True\<rparr>\<rparr>)) = None"
proof -
  let ?c = "exampleCheckB\<lparr>fixOption := True\<rparr>"
  let ?s = "initialState\<lparr>npmUpdatePromise := \<lparr>settledAt = 8, rejected = True\<rparr>\<rparr>"
  have u: "unused exampleDependencySet ?c = Inr [''left-pad'']"
    by (simp add: unused_def exampleDependencySet_def exampleCheckB_def exampleB_def mergeKeys_def
        isReactFile_def endsWith_def Let_def)
  have h: "isSelected (eachWorkspace ?c) \<and> fixOption ?c \<and> unused exampleDependencySet ?c = Inr [''left-pad'']
      \<and> [''left-pad''] \<noteq> []"
    using u by (simp add: exampleCheckB_def)
  note t = npm_remove_one_at_a_time[of exampleDependencySet
      "[exampleCheckA\<lparr>fixOption := True\<rparr>, exampleCheckB\<lparr>fixOption := True\<rparr>]" ?c "[''left-pad'']" ?s]
  have a: "oneAtATime (processes (fold (commandEach exampleDependencySet)
       [exampleCheckA\<lparr>fixOption := True\<rparr>, exampleCheckB\<lparr>fixOption := True\<rparr>] initialState))"
    using t by blast
  have b: "processes (fst (each exampleDependencySet ?c ?s)) = processes ?s @
          [\<lparr>spawnedFor = name (eachWorkspace ?c), arguments = removeArguments (eachWorkspace ?c) [''left-pad''],
            startedAt = max (settledAt (npmUpdatePromise ?s)) (now ?c),
            endedAt = max (settledAt (npmUpdatePromise ?s)) (now ?c) + duration (npmRemove ?c)\<rparr>]
        \<and> snd (each exampleDependencySet ?c ?s) = (if spawnRejects (npmRemove ?c) then Some SpawnRejected else None)"
    using t h by blast
  have v: "processes ?s = [] \<and> name (eachWorkspace ?c) = ''pkg-b''
      \<and> removeArguments (eachWorkspace ?c) [''left-pad''] = [''-w'', ''pkg-b'', ''remove'', ''left-pad'']
      \<and> max (settledAt (npmUpdatePromise ?s)) (now ?c) = 8 \<and> duration (npmRemove ?c) = 2
      \<and> \<not> spawnRejects (npmRemove ?c)"
    by (simp add: initialState_def exampleCheckB_def exampleB_def removeArguments_def)
  show ?thesis using a b v by (intro conjI) simp_all
qed

subsection \<open>The version command\<close>

lemma step_image: "set (map snd (filter (\<lambda>e. fst e \<in> S) edges)) = set edges `` S"
  by force

lemma reachable_Suc: "reachable (Suc n) edges S = reachable n edges (S \<union> set edges `` S)"
  by (simp only: reachable.simps step_image)

lemma reachable_sound: "reachable n edges S \<subseteq> (set edges)\<^sup>* `` S"
proof (induction n arbitrary: S)
  case 0
  then show ?case by auto
next
  case (Suc n)
  let ?T = "S \<union> set edges `` S"
  have "reachable n edges ?T \<subseteq> (set edges)\<^sup>* `` ?T" by (rule Suc.IH)
  also have "\<dots> \<subseteq> (set edges)\<^sup>* `` S"
    by (auto intro: converse_rtrancl_into_rtrancl)
  finally show ?case by (simp only: reachable_Suc)
qed

lemma closed_contains_closure:
  assumes "S \<subseteq> T" and "set edges `` T \<subseteq> T"
  shows "(set edges)\<^sup>* `` S \<subseteq> T"
proof
  fix y assume "y \<in> (set edges)\<^sup>* `` S"
  then obtain x where x: "x \<in> S" and r: "(x, y) \<in> (set edges)\<^sup>*" by auto
  from r have "x \<in> T \<longrightarrow> y \<in> T"
    by (induction rule: rtrancl_induct) (use assms(2) in auto)
  then show "y \<in> T" using x assms(1) by auto
qed

lemma reachable_fixed: "set edges `` T \<subseteq> T \<Longrightarrow> reachable n edges T = T"
proof (induction n)
  case 0
  then show ?case by simp
next
  case (Suc n)
  have "T \<union> set edges `` T = T" using Suc.prems by auto
  then show ?case using Suc by (simp only: reachable_Suc)
qed

lemma reachable_grows:
  assumes fin: "finite R" and R: "R = (set edges)\<^sup>* `` S"
  shows "S \<subseteq> T \<Longrightarrow> T \<subseteq> R \<Longrightarrow> reachable n edges T = R \<or> card T + n \<le> card (reachable n edges T)"
proof (induction n arbitrary: T)
  case 0
  then show ?case by simp
next
  case (Suc n)
  let ?U = "T \<union> set edges `` T"
  have UR: "?U \<subseteq> R"
  proof -
    have "set edges `` R \<subseteq> R" unfolding R by (auto intro: rtrancl_into_rtrancl)
    then show ?thesis using Suc.prems(2) by auto
  qed
  have SU: "S \<subseteq> ?U" using Suc.prems(1) by auto
  show ?case
  proof (cases "set edges `` T \<subseteq> T")
    case True
    have "R \<subseteq> T" unfolding R using closed_contains_closure[OF Suc.prems(1) True] .
    then have "T = R" using Suc.prems(2) by auto
    then show ?thesis using reachable_fixed[OF True, of "Suc n"] by simp
  next
    case False
    then have "T \<subset> ?U" by auto
    moreover have "finite ?U" using UR fin by (rule finite_subset)
    ultimately have "card T < card ?U" by (rule psubset_card_mono[rotated])
    then show ?thesis using Suc.IH[OF SU UR] unfolding reachable_Suc by auto
  qed
qed

lemma reachable_closure:
  assumes S: "S \<subseteq> {..<N}" and E: "\<forall>e \<in> set edges. snd e < N"
  shows "reachable N edges S = (set edges)\<^sup>* `` S"
proof -
  let ?R = "(set edges)\<^sup>* `` S"
  have RN: "?R \<subseteq> {..<N}"
  proof
    fix y assume "y \<in> ?R"
    then obtain x where x: "x \<in> S" and r: "(x, y) \<in> (set edges)\<^sup>*" by auto
    from r show "y \<in> {..<N}"
    proof (cases rule: rtranclE)
      case base
      then show ?thesis using x S by auto
    next
      case (step z)
      then show ?thesis using E by auto
    qed
  qed
  then have fin: "finite ?R" by (rule finite_subset) simp
  have sub: "reachable N edges S \<subseteq> ?R" by (rule reachable_sound)
  from reachable_grows[OF fin refl, of S N] reachable_sound[of 0 edges S]
  have "reachable N edges S = ?R \<or> card S + N \<le> card (reachable N edges S)" by auto
  then show ?thesis
  proof
    assume "reachable N edges S = ?R"
    then show ?thesis .
  next
    assume c: "card S + N \<le> card (reachable N edges S)"
    have "card (reachable N edges S) \<le> card ?R" using sub fin by (rule card_mono[rotated])
    moreover have "card ?R \<le> card {..<N}" using RN by (intro card_mono) simp_all
    ultimately have "card (reachable N edges S) = card ?R" using c by simp
    then show ?thesis using sub fin by (intro card_subset_eq) simp_all
  qed
qed

lemma anchors_in_range: "anchors c \<subseteq> {..<length (workspaces c)}"
  by (auto simp: anchors_def)

text \<open>With edges between registered workspaces, the selected subset is the anchor set
  together with each enabled closure of it.\<close>

lemma isIterated_closure:
  assumes "\<forall>e \<in> set (links c). fst e < length (workspaces c) \<and> snd e < length (workspaces c)"
  shows "isIterated c i =
     (i \<in> anchors c
      \<or> (dependenciesIncluded c \<and> i \<in> (set (links c))\<^sup>* `` anchors c)
      \<or> (dependentsIncluded c \<and> i \<in> ((set (links c))\<inverse>)\<^sup>* `` anchors c))"
proof -
  have inv: "set (map (\<lambda>e. (snd e, fst e)) (links c)) = (set (links c))\<inverse>" by force
  have a: "reachable (length (workspaces c)) (links c) (anchors c) = (set (links c))\<^sup>* `` anchors c"
    using assms by (intro reachable_closure anchors_in_range) simp
  have b: "reachable (length (workspaces c)) (map (\<lambda>e. (snd e, fst e)) (links c)) (anchors c)
             = ((set (links c))\<inverse>)\<^sup>* `` anchors c"
    using assms reachable_closure[OF anchors_in_range, of "map (\<lambda>e. (snd e, fst e)) (links c)" c] inv
    by simp
  show ?thesis by (simp add: isIterated_def a b)
qed

lemma reachable_superset: "S \<subseteq> reachable n edges S"
proof (induction n arbitrary: S)
  case 0
  then show ?case by simp
next
  case (Suc n)
  have "S \<subseteq> S \<union> set (map snd (filter (\<lambda>e. fst e \<in> S) edges))" by simp
  also have "\<dots> \<subseteq> reachable n edges (S \<union> set (map snd (filter (\<lambda>e. fst e \<in> S) edges)))"
    by (rule Suc.IH)
  finally show ?case by simp
qed

lemma anchors_iterated: "i \<in> anchors c \<Longrightarrow> isIterated c i"
  by (simp add: isIterated_def)


lemma settle_length [simp]: "length (settle f i wss) = length wss"
  by (simp add: settle_def split: sum.splits)

lemma fold_settle_length [simp]: "length (fold (settle f) is wss) = length wss"
  by (induction "is" arbitrary: wss) simp_all


lemma statusSet_fields [simp]:
  "isSelected (statusSet st given w) = isSelected w"
  "isModified (statusSet st given w) = isModified w"
  "name (statusSet st given w) = name w"
  by (simp_all add: statusSet_def)


lemma forEach_fields [simp]:
  "dependenciesIncluded (forEach f c) = dependenciesIncluded c"
  "dependentsIncluded (forEach f c) = dependentsIncluded c"
  "links (forEach f c) = links c"
  "length (workspaces (forEach f c)) = length (workspaces c)"
  by (simp_all add: forEach_def)











end
